theory Spec2Isabelle
  imports Main "HOL-Library.Sublist"
begin

section \<open>The simple-chat example: generation loop and conversation formatting\<close>

text \<open>
  A shallow embedding of \<^verbatim>\<open>examples/simple-chat/simple-chat.cpp\<close>: the \<^verbatim>\<open>generate\<close>
  lambda (lines 109 to 199) and the chat loop of \<^verbatim>\<open>main\<close> (lines 207 to 249).

  The inference engine behind \<^verbatim>\<open>llama.h\<close> is outside the file. It enters the model as a
  record of functions over an engine state \<open>'s\<close> (the \<^verbatim>\<open>llama_context\<close> together with the
  sampler chain); nothing is assumed about these functions unless a theorem says so.
  The \<^verbatim>\<open>int\<close> and \<^verbatim>\<open>llama_token\<close> values of the source are modelled as \<open>int\<close>, with the
  wrap-around of 32 bits written out (\<open>int32\<close> below) wherever the source converts a
  wider or an unsigned value to \<^verbatim>\<open>int\<close> or computes on \<^verbatim>\<open>int\<close> values that are not bounded:
  the capacity of line 130, the sums of lines 131 and 132, the negation of line 115 and
  the cast of line 225. When an iteration of the generation loop starts,
  \<^verbatim>\<open>same_token_count\<close> is below 32, \<^verbatim>\<open>anomaly_count\<close> below 10 and \<^verbatim>\<open>n_decoded\<close> at most
  \<^verbatim>\<open>n_predict\<close> (lemma \<open>gen_inv_counters\<close> below), and an iteration adds at most 1 to each,
  so none of the counters wraps. Strings are byte lists, as \<^verbatim>\<open>std::string\<close> is.
\<close>

subsection \<open>The engine interface\<close>

type_synonym llama_token = int

text \<open>A \<^verbatim>\<open>llama_chat_message\<close>: role and content.\<close>

type_synonym llama_chat_message = "string \<times> string"

text \<open>
  \<^item> \<open>llama_n_ctx\<close>: the capacity of the context window.
  \<^item> \<open>llama_memory_seq_pos_max\<close>: the highest occupied position of sequence 0, \<open>-1\<close>
    when the sequence is empty.
  \<^item> \<open>llama_tokenize text n_tokens_max add_special parse_special\<close>: the return value and
    the tokens written to the caller's buffer. As in the C interface, a negative return
    value is minus the number of tokens that would have been needed.
  \<^item> \<open>llama_decode\<close>: the return code and the engine state after the call.
  \<^item> \<open>llama_sampler_sample\<close>: the sampled token and the engine state after the call.
  \<^item> \<open>llama_vocab_is_eog\<close>: whether a token ends the generation.
  \<^item> \<open>llama_token_to_piece\<close>: the bytes of the piece written to \<^verbatim>\<open>buf\<close> (the return
    value \<^verbatim>\<open>n\<close> is their number), or \<open>None\<close> for a negative return value.
  \<^item> \<open>llama_chat_apply_template msgs add_ass size\<close>: the return value and the bytes
    written when the call is made on a caller's buffer of \<open>size\<close> bytes.
\<close>

record 's engine =
  llama_n_ctx :: "'s \<Rightarrow> int"
  llama_memory_seq_pos_max :: "'s \<Rightarrow> int"
  llama_tokenize :: "string \<Rightarrow> int \<Rightarrow> bool \<Rightarrow> bool \<Rightarrow> int \<times> llama_token list"
  llama_decode :: "'s \<Rightarrow> llama_token list \<Rightarrow> int \<times> 's"
  llama_sampler_sample :: "'s \<Rightarrow> llama_token \<times> 's"
  llama_vocab_is_eog :: "llama_token \<Rightarrow> bool"
  llama_token_to_piece :: "llama_token \<Rightarrow> string option"
  llama_chat_apply_template :: "llama_chat_message list \<Rightarrow> bool \<Rightarrow> nat \<Rightarrow> int \<times> string"

subsection \<open>Effects and ways to end\<close>

text \<open>
  The calls into the engine that change it or that a claim speaks about, and the writes to
  the two output streams, in the order in which the program performs them.
\<close>

datatype 's event =
  Tokenize string int bool bool
| Decode 's "llama_token list"
| Sample llama_token
| Stdout string
| Stderr string

text \<open>
  How the process can end: \<^verbatim>\<open>exit(n)\<close> or \<^verbatim>\<open>return n\<close> from \<^verbatim>\<open>main\<close>; \<^verbatim>\<open>GGML_ABORT\<close> with
  its format string; an exception that nothing catches; a read outside a buffer.
\<close>

datatype ending =
  Exit int
| Ggml_Abort string
| Uncaught_Exception
| Undefined_Behaviour

fun sampled :: "'s event list \<Rightarrow> llama_token list" where
  "sampled [] = []"
| "sampled (Sample t # es) = t # sampled es"
| "sampled (_ # es) = sampled es"

fun printed :: "'s event list \<Rightarrow> string list" where
  "printed [] = []"
| "printed (Stdout s # es) = s # printed es"
| "printed (_ # es) = printed es"

fun is_Decode :: "'s event \<Rightarrow> bool" where
  "is_Decode (Decode c b) = True"
| "is_Decode _ = False"

fun is_Tokenize :: "'s event \<Rightarrow> bool" where
  "is_Tokenize (Tokenize s n a p) = True"
| "is_Tokenize _ = False"

text \<open>What \<^verbatim>\<open>printf("%s", s.c_str())\<close> and \<^verbatim>\<open>strdup(s.c_str())\<close> see of a \<^verbatim>\<open>std::string\<close>.\<close>

definition c_str :: "string \<Rightarrow> string" where
  "c_str s = takeWhile (\<lambda>c. c \<noteq> CHR 0x00) s"

definition esc :: char where
  "esc = CHR 0x1B"

text \<open>
  The value of type \<^verbatim>\<open>int\<close> (32 bits, two's complement) that the program computes where
  the mathematical result is \<open>x\<close>: the conversion of a \<^verbatim>\<open>uint32_t\<close> or a \<^verbatim>\<open>size_t\<close> to \<^verbatim>\<open>int\<close>,
  and the result of an addition or a negation of \<^verbatim>\<open>int\<close> values. The C++ standard leaves a
  signed overflow undefined; the compiled program wraps around.
\<close>

definition int32 :: "int \<Rightarrow> int" where
  "int32 x = (x + 2147483648) mod 4294967296 - 2147483648"

subsection \<open>The anomaly classification (lines 166 to 177)\<close>

definition glyph_o_acute :: string where
  "glyph_o_acute = [CHR 0xC3, CHR 0xB3]"

definition glyph_g_o_acute :: string where
  "glyph_g_o_acute = [CHR 0x67, CHR 0xC3, CHR 0xB3]"

definition anomaly_next :: "string \<Rightarrow> int \<Rightarrow> int" where
  "anomaly_next piece anomaly_count =
     (if length piece = 1 then
        (let ch = piece ! 0 in
         if ch = CHR ''('' \<or> ch = CHR '')'' \<or> ch = CHR ''@'' then anomaly_count + 1 else 0)
      else if piece = glyph_o_acute \<or> piece = glyph_g_o_acute then anomaly_count + 1
      else 0)"

text \<open>The five \<^verbatim>\<open>printf\<close> calls of lines 181 to 185, as the bytes of the source file.\<close>

definition anomaly_warning :: "string list" where
  "anomaly_warning =
   [
    [CHR 0x0A, CHR 0x0A, CHR 0xF0, CHR 0x9F, CHR 0x9A, CHR 0xA8, CHR 0x20, CHR 0x5B, CHR 0xE6,
     CHR 0xA8, CHR 0xA1, CHR 0xE5, CHR 0x9E, CHR 0x8B, CHR 0xE8, CHR 0xB4, CHR 0xA8, CHR 0xE9,
     CHR 0x87, CHR 0x8F, CHR 0xE8, CHR 0xAD, CHR 0xA6, CHR 0xE5, CHR 0x91, CHR 0x8A, CHR 0x5D,
     CHR 0x20, CHR 0xF0, CHR 0x9F, CHR 0x9A, CHR 0xA8, CHR 0x0A],
    [CHR 0xE6, CHR 0xA3, CHR 0x80, CHR 0xE6, CHR 0xB5, CHR 0x8B, CHR 0xE5, CHR 0x88, CHR 0xB0,
     CHR 0xE6, CHR 0xA8, CHR 0xA1, CHR 0xE5, CHR 0x9E, CHR 0x8B, CHR 0xE8, CHR 0xBE, CHR 0x93,
     CHR 0xE5, CHR 0x87, CHR 0xBA, CHR 0xE5, CHR 0xBC, CHR 0x82, CHR 0xE5, CHR 0xB8, CHR 0xB8,
     CHR 0xE5, CHR 0xAD, CHR 0x97, CHR 0xE7, CHR 0xAC, CHR 0xA6, CHR 0xE3, CHR 0x80, CHR 0x82,
     CHR 0xE8, CHR 0xBF, CHR 0x99, CHR 0xE9, CHR 0x80, CHR 0x9A, CHR 0xE5, CHR 0xB8, CHR 0xB8,
     CHR 0xE8, CHR 0xA1, CHR 0xA8, CHR 0xE6, CHR 0x98, CHR 0x8E, CHR 0x3A, CHR 0x0A],
    [CHR 0xE2, CHR 0x80, CHR 0xA2, CHR 0x20, CHR 0xE6, CHR 0xA8, CHR 0xA1, CHR 0xE5, CHR 0x9E,
     CHR 0x8B, CHR 0xE6, CHR 0x96, CHR 0x87, CHR 0xE4, CHR 0xBB, CHR 0xB6, CHR 0xE5, CHR 0x8F,
     CHR 0xAF, CHR 0xE8, CHR 0x83, CHR 0xBD, CHR 0xE6, CHR 0x8D, CHR 0x9F, CHR 0xE5, CHR 0x9D,
     CHR 0x8F, CHR 0xE6, CHR 0x88, CHR 0x96, CHR 0xE8, CHR 0xB4, CHR 0xA8, CHR 0xE9, CHR 0x87,
     CHR 0x8F, CHR 0xE4, CHR 0xB8, CHR 0x8D, CHR 0xE4, CHR 0xBD, CHR 0xB3, CHR 0x0A],
    [CHR 0xE2, CHR 0x80, CHR 0xA2, CHR 0x20, CHR 0xE5, CHR 0xBB, CHR 0xBA, CHR 0xE8, CHR 0xAE,
     CHR 0xAE, CHR 0xE5, CHR 0xB0, CHR 0x9D, CHR 0xE8, CHR 0xAF, CHR 0x95, CHR 0xE5, CHR 0x85,
     CHR 0xB6, CHR 0xE4, CHR 0xBB, CHR 0x96, CHR 0x47, CHR 0x47, CHR 0x55, CHR 0x46, CHR 0xE6,
     CHR 0xA8, CHR 0xA1, CHR 0xE5, CHR 0x9E, CHR 0x8B, CHR 0xE6, CHR 0x96, CHR 0x87, CHR 0xE4,
     CHR 0xBB, CHR 0xB6, CHR 0x0A],
    [CHR 0xE2, CHR 0x80, CHR 0xA2, CHR 0x20, CHR 0xE6, CHR 0x88, CHR 0x96, CHR 0xE8, CHR 0x80,
     CHR 0x85, CHR 0xE6, CHR 0xA3, CHR 0x80, CHR 0xE6, CHR 0x9F, CHR 0xA5, CHR 0xE6, CHR 0xA8,
     CHR 0xA1, CHR 0xE5, CHR 0x9E, CHR 0x8B, CHR 0xE6, CHR 0x98, CHR 0xAF, CHR 0xE5, CHR 0x90,
     CHR 0xA6, CHR 0xE4, CHR 0xB8, CHR 0x8E, CHR 0x6C, CHR 0x6C, CHR 0x61, CHR 0x6D, CHR 0x61,
     CHR 0x2E, CHR 0x63, CHR 0x70, CHR 0x70, CHR 0xE5, CHR 0x85, CHR 0xBC, CHR 0xE5, CHR 0xAE,
     CHR 0xB9, CHR 0x0A, CHR 0x0A]
   ]"

subsection \<open>The generation loop (lines 109 to 199)\<close>

text \<open>
  The variables of \<^verbatim>\<open>generate\<close> that live across iterations, the engine state, and the
  events of this call so far.
\<close>

record 's gen_state =
  ctx :: 's
  events :: "'s event list"
  batch :: "llama_token list"
  last_token_id :: llama_token
  same_token_count :: int
  anomaly_count :: int
  n_decoded :: int
  response :: string

datatype 's step_result =
  Continue "'s gen_state"
| Stop "ending + string" "'s gen_state"

text \<open>
  One iteration of \<^verbatim>\<open>while (true)\<close> (lines 128 to 196). \<open>Stop (Inr r)\<close> is a \<^verbatim>\<open>break\<close>,
  after which \<^verbatim>\<open>generate\<close> returns the response \<open>r\<close>; \<open>Stop (Inl t)\<close> ends the process.
  Line 130 stores the \<^verbatim>\<open>uint32_t\<close> capacity in an \<^verbatim>\<open>int\<close>, and lines 131 and 132 add \<^verbatim>\<open>int\<close>
  values. The batch has fewer than \<open>2^31\<close> tokens (its \<^verbatim>\<open>n_tokens\<close> is an \<^verbatim>\<open>int32_t\<close>), so its
  length is the value of \<^verbatim>\<open>batch.n_tokens\<close>.
\<close>

definition gen_step :: "'s engine \<Rightarrow> int \<Rightarrow> 's gen_state \<Rightarrow> 's step_result" where
  "gen_step E n_predict g =
    (let n_ctx = int32 (llama_n_ctx E (ctx g));
         n_ctx_used = int32 (llama_memory_seq_pos_max E (ctx g) + 1)
     in
     if int32 (n_ctx_used + int (length (batch g))) > n_ctx then
       Stop (Inl (Exit 0))
         (g\<lparr>events := events g @
              [Stdout (esc # ''[0m\<newline>''), Stderr ''context size exceeded\<newline>'']\<rparr>)
     else
       let d = llama_decode E (ctx g) (batch g);
           g1 = g\<lparr>ctx := snd d, events := events g @ [Decode (ctx g) (batch g)]\<rparr>
       in
       if fst d \<noteq> 0 then Stop (Inl (Ggml_Abort ''failed to decode, ret = %d\<newline>'')) g1
       else
         let s = llama_sampler_sample E (ctx g1);
             new_token_id = fst s;
             g2 = g1\<lparr>ctx := snd s, events := events g1 @ [Sample new_token_id]\<rparr>;
             g3 = (if new_token_id = last_token_id g2
                   then g2\<lparr>same_token_count := same_token_count g2 + 1\<rparr>
                   else g2\<lparr>same_token_count := 1, last_token_id := new_token_id\<rparr>)
         in
         if llama_vocab_is_eog E new_token_id \<or> n_decoded g3 \<ge> n_predict
            \<or> same_token_count g3 \<ge> 32
         then Stop (Inr (response g3)) g3
         else
           (case llama_token_to_piece E new_token_id of
              None \<Rightarrow> Stop (Inl (Ggml_Abort ''failed to convert token to piece\<newline>'')) g3
            | Some piece \<Rightarrow>
                let g4 = g3\<lparr>anomaly_count := anomaly_next piece (anomaly_count g3)\<rparr>
                in
                if anomaly_count g4 \<ge> 10 then
                  Stop (Inr (response g4))
                    (g4\<lparr>events := events g4 @ map Stdout anomaly_warning\<rparr>)
                else
                  Continue
                    (g4\<lparr>events := events g4 @ [Stdout (c_str piece)],
                        response := response g4 @ piece,
                        batch := [new_token_id],
                        n_decoded := n_decoded g4 + 1\<rparr>)))"

text \<open>
  The loop: every iteration that does not leave it has \<^verbatim>\<open>n_decoded < n_predict\<close> and
  increments \<^verbatim>\<open>n_decoded\<close>, so the loop ends on every engine.
\<close>

function gen_loop ::
  "'s engine \<Rightarrow> int \<Rightarrow> 's gen_state \<Rightarrow> (ending + string) \<times> 's gen_state" where
  "gen_loop E n_predict g =
     (case gen_step E n_predict g of
        Stop r g' \<Rightarrow> (r, g')
      | Continue g' \<Rightarrow> gen_loop E n_predict g')"
  by pat_completeness auto
termination
  by (relation "measure (\<lambda>(E, n_predict, g). nat (n_predict - n_decoded g))")
     (auto simp: gen_step_def Let_def split: if_splits option.splits)

declare gen_loop.simps [simp del]

text \<open>
  \<^verbatim>\<open>generate\<close>: the tokenisation of the prompt (lines 112 to 119), the first batch and the
  fresh loop variables (lines 122 to 127), then the loop. Line 115 negates an \<^verbatim>\<open>int\<close>: the
  reply \<open>-2^31\<close> of the tokenizer stays \<open>-2^31\<close>. A negative \<^verbatim>\<open>n_prompt_tokens\<close> makes the
  constructor of \<^verbatim>\<open>std::vector\<close> throw. The vector is zero-initialised and has
  \<^verbatim>\<open>n_prompt_tokens\<close> elements whatever the second call writes.
\<close>

definition gen_init :: "'s \<Rightarrow> 's event list \<Rightarrow> llama_token list \<Rightarrow> 's gen_state" where
  "gen_init c es prompt_tokens =
     \<lparr>ctx = c, events = es, batch = prompt_tokens, last_token_id = -1,
      same_token_count = 0, anomaly_count = 0, n_decoded = 0, response = []\<rparr>"

definition generate ::
  "'s engine \<Rightarrow> int \<Rightarrow> 's \<Rightarrow> string \<Rightarrow> (ending + string) \<times> 's gen_state" where
  "generate E n_predict c prompt =
    (let is_first = (llama_memory_seq_pos_max E c = -1);
         n_prompt_tokens = int32 (- fst (llama_tokenize E prompt 0 is_first True));
         es1 = [Tokenize prompt 0 is_first True]
     in
     if n_prompt_tokens < 0 then (Inl Uncaught_Exception, gen_init c es1 [])
     else
       let t = llama_tokenize E prompt n_prompt_tokens is_first True;
           prompt_tokens =
             take (nat n_prompt_tokens) (snd t @ replicate (nat n_prompt_tokens) 0);
           es2 = es1 @ [Tokenize prompt n_prompt_tokens is_first True]
       in
       if fst t < 0 then
         (Inl (Ggml_Abort ''failed to tokenize the prompt\<newline>''), gen_init c es2 prompt_tokens)
       else gen_loop E n_predict (gen_init c es2 prompt_tokens))"

subsection \<open>The chat loop of \<^verbatim>\<open>main\<close> (lines 207 to 249)\<close>

text \<open>
  The variables of \<^verbatim>\<open>main\<close> that live across turns: the engine state, the message list,
  the buffer \<^verbatim>\<open>formatted\<close>, the offset \<^verbatim>\<open>prev_len\<close>, and the events of the session so far.
\<close>

record 's chat_state =
  chat_ctx :: 's
  messages :: "llama_chat_message list"
  formatted :: string
  prev_len :: int
  chat_log :: "'s event list"

definition chat_init :: "'s engine \<Rightarrow> 's \<Rightarrow> 's chat_state" where
  "chat_init E c =
     \<lparr>chat_ctx = c, messages = [], formatted = replicate (nat (llama_n_ctx E c)) (CHR 0x00),
      prev_len = 0, chat_log = []\<rparr>"

text \<open>
  A call of \<^verbatim>\<open>llama_chat_apply_template\<close> on the buffer \<open>buf\<close>: the engine writes at most
  \<open>length buf\<close> bytes at its start and leaves the rest as it was.
\<close>

definition overlay :: "string \<Rightarrow> string \<Rightarrow> string" where
  "overlay w buf = take (length buf) w @ drop (length w) buf"

definition render_into ::
  "'s engine \<Rightarrow> llama_chat_message list \<Rightarrow> bool \<Rightarrow> string \<Rightarrow> int \<times> string" where
  "render_into E msgs add_ass buf =
     (let r = llama_chat_apply_template E msgs add_ass (length buf)
      in (fst r, overlay (snd r) buf))"

text \<open>\<^verbatim>\<open>formatted.resize(n)\<close>: the first \<open>n\<close> bytes, filled up with zero bytes.\<close>

definition resize :: "nat \<Rightarrow> string \<Rightarrow> string" where
  "resize n buf = take n buf @ replicate (n - length buf) (CHR 0x00)"

text \<open>
  Lines 224 to 228: the conversation is rendered into \<^verbatim>\<open>formatted\<close>; when the reported
  length exceeds the size of the buffer, cast to \<^verbatim>\<open>int\<close>, the buffer is resized to it and the
  conversation is rendered once more. \<^verbatim>\<open>resize\<close> takes a \<^verbatim>\<open>size_t\<close>: a negative length is a
  size beyond \<^verbatim>\<open>max_size()\<close>, and \<^verbatim>\<open>resize\<close> throws \<^verbatim>\<open>std::length_error\<close>, which nothing
  catches. That needs a negative cast, that is, a buffer of \<open>2^31\<close> bytes or more. Otherwise
  the result is \<^verbatim>\<open>new_len\<close> and the buffer.
\<close>

definition render_resizing ::
  "'s engine \<Rightarrow> llama_chat_message list \<Rightarrow> string \<Rightarrow> ending + int \<times> string" where
  "render_resizing E msgs buf =
     (let r1 = render_into E msgs True buf
      in if fst r1 > int32 (int (length (snd r1)))
         then if fst r1 < 0 then Inl Uncaught_Exception
              else Inr (render_into E msgs True (resize (nat (fst r1)) (snd r1)))
         else Inr r1)"

text \<open>
  Lines 223 to 235: the user message is appended, the conversation is rendered with the
  generation suffix, and the prompt is the range from \<^verbatim>\<open>prev_len\<close> to \<^verbatim>\<open>new_len\<close> of the
  buffer. The iterator range of line 235 is valid only for
  \<open>0 \<le> prev_len \<le> new_len \<le> formatted.size()\<close>.
\<close>

definition format_prompt ::
  "'s engine \<Rightarrow> string \<Rightarrow> 's chat_state \<Rightarrow> (ending \<times> 's chat_state) + (string \<times> 's chat_state)"
  where
  "format_prompt E user st =
    (let msgs = messages st @ [(''user'', c_str user)]
     in
     case render_resizing E msgs (formatted st) of
       Inl e \<Rightarrow> Inl (e, st\<lparr>messages := msgs\<rparr>)
     | Inr r \<Rightarrow>
         let new_len = fst r;
             st1 = st\<lparr>messages := msgs, formatted := snd r\<rparr>
         in
         if new_len < 0 then
           Inl (Exit 1,
                st1\<lparr>chat_log :=
                      chat_log st1 @ [Stderr ''failed to apply the chat template\<newline>'']\<rparr>)
         else if prev_len st1 < 0 \<or> prev_len st1 > new_len
                 \<or> new_len > int (length (formatted st1))
         then Inl (Undefined_Behaviour, st1)
         else Inr (drop (nat (prev_len st1)) (take (nat new_len) (formatted st1)), st1))"

text \<open>
  Lines 240 to 248: the response becomes an assistant message, and \<^verbatim>\<open>prev_len\<close> is the length
  that the template reports for the conversation without the generation suffix.
\<close>

definition commit_response ::
  "'s engine \<Rightarrow> string \<Rightarrow> 's chat_state \<Rightarrow> (ending \<times> 's chat_state) + 's chat_state" where
  "commit_response E resp st =
    (let st1 = st\<lparr>chat_log := chat_log st @ [Stdout (CHR ''\<newline>'' # esc # ''[0m'')],
                   messages := messages st @ [(''assistant'', c_str resp)]\<rparr>;
         st2 = st1\<lparr>prev_len := fst (llama_chat_apply_template E (messages st1) False 0)\<rparr>
     in
     if prev_len st2 < 0 then
       Inl (Exit 1,
            st2\<lparr>chat_log := chat_log st2 @ [Stderr ''failed to apply the chat template\<newline>'']\<rparr>)
     else Inr st2)"

text \<open>One turn: lines 220 to 248, for a line \<open>user\<close> that is not empty.\<close>

definition turn ::
  "'s engine \<Rightarrow> int \<Rightarrow> string \<Rightarrow> 's chat_state \<Rightarrow> (ending \<times> 's chat_state) + 's chat_state"
  where
  "turn E n_predict user st =
    (case format_prompt E user st of
       Inl x \<Rightarrow> Inl x
     | Inr (prompt, st1) \<Rightarrow>
         let st2 = st1\<lparr>chat_log := chat_log st1 @ [Stdout (esc # ''[33m'')]\<rparr>;
             r = generate E n_predict (chat_ctx st2) prompt;
             st3 = st2\<lparr>chat_ctx := ctx (snd r), chat_log := chat_log st2 @ events (snd r)\<rparr>
         in
         (case fst r of
            Inl e \<Rightarrow> Inl (e, st3)
          | Inr resp \<Rightarrow> commit_response E resp st3))"

definition show_prompt :: "'s chat_state \<Rightarrow> 's chat_state" where
  "show_prompt st = st\<lparr>chat_log := chat_log st @ [Stdout (esc # ''[32m> '' @ esc # ''[0m'')]\<rparr>"

text \<open>
  The loop over the lines of standard input. At the end of the input \<^verbatim>\<open>std::getline\<close>
  leaves \<^verbatim>\<open>user\<close> empty, which ends the loop as an empty line does.
\<close>

fun chat_loop ::
  "'s engine \<Rightarrow> int \<Rightarrow> string list \<Rightarrow> 's chat_state \<Rightarrow> ending \<times> 's chat_state" where
  "chat_loop E n_predict [] st = (Exit 0, show_prompt st)"
| "chat_loop E n_predict (user # rest) st =
     (if user = [] then (Exit 0, show_prompt st)
      else (case turn E n_predict user (show_prompt st) of
              Inl x \<Rightarrow> x
            | Inr st' \<Rightarrow> chat_loop E n_predict rest st'))"

text \<open>The states in which the loop of \<^verbatim>\<open>main\<close> starts an iteration, in order.\<close>

fun chat_states :: "'s engine \<Rightarrow> int \<Rightarrow> string list \<Rightarrow> 's chat_state \<Rightarrow> 's chat_state list" where
  "chat_states E n_predict [] st = [st]"
| "chat_states E n_predict (user # rest) st =
     st # (if user = [] then []
           else (case turn E n_predict user (show_prompt st) of
                   Inl x \<Rightarrow> []
                 | Inr st' \<Rightarrow> chat_states E n_predict rest st'))"

subsection \<open>Notions of the specification\<close>

text \<open>
  The definitions of this subsection are not taken from the source. They say in the
  specification's terms what the theorems below compare the program with.
\<close>

text \<open>
  Whether a batch passes the check of lines 130 to 132, as the program computes it; whether
  it is within the capacity, \<open>used + pending_batch_size \<le> capacity\<close>, in the integers; and
  when the two are the same: the capacity and the sum are values of \<^verbatim>\<open>int\<close>.
\<close>

definition fits :: "'s engine \<Rightarrow> 's \<Rightarrow> llama_token list \<Rightarrow> bool" where
  "fits E c b \<longleftrightarrow>
     int32 (int32 (llama_memory_seq_pos_max E c + 1) + int (length b))
       \<le> int32 (llama_n_ctx E c)"

definition within_capacity :: "'s engine \<Rightarrow> 's \<Rightarrow> llama_token list \<Rightarrow> bool" where
  "within_capacity E c b \<longleftrightarrow>
     llama_memory_seq_pos_max E c + 1 + int (length b) \<le> llama_n_ctx E c"

definition in_int_range :: "'s engine \<Rightarrow> 's \<Rightarrow> llama_token list \<Rightarrow> bool" where
  "in_int_range E c b \<longleftrightarrow>
     0 \<le> llama_n_ctx E c \<and> llama_n_ctx E c < 2147483648
     \<and> - 1 \<le> llama_memory_seq_pos_max E c
     \<and> llama_memory_seq_pos_max E c + 1 + int (length b) < 2147483648"

text \<open>Every decode call of a list of events was on a batch that had passed the check.\<close>

definition decodes_fit :: "'s engine \<Rightarrow> 's event list \<Rightarrow> bool" where
  "decodes_fit E es \<longleftrightarrow> (\<forall>c b. Decode c b \<in> set es \<longrightarrow> fits E c b)"

text \<open>The length of the run of identical token ids at the end of a token sequence.\<close>

definition run_len :: "llama_token list \<Rightarrow> nat" where
  "run_len ts = length (takeWhile (\<lambda>t. t = last ts) (rev ts))"

text \<open>
  A suspicious piece: one of the three single characters or one of the two multi-byte
  glyphs. The length of the run of suspicious pieces at the end of a sequence of pieces.
\<close>

definition suspicious :: "string \<Rightarrow> bool" where
  "suspicious p \<longleftrightarrow> p \<in> {''('', '')'', ''@'', glyph_o_acute, glyph_g_o_acute}"

definition suspicious_run :: "string list \<Rightarrow> nat" where
  "suspicious_run ps = length (takeWhile suspicious (rev ps))"

text \<open>The display text of a token, empty where the engine gives none.\<close>

definition piece_of :: "'s engine \<Rightarrow> llama_token \<Rightarrow> string" where
  "piece_of E t = (case llama_token_to_piece E t of Some p \<Rightarrow> p | None \<Rightarrow> [])"

definition pieces :: "'s engine \<Rightarrow> llama_token list \<Rightarrow> string list" where
  "pieces E ts = map (piece_of E) ts"

text \<open>
  The stop condition of line 153 right after the last token of \<open>ts\<close> has been sampled, every
  earlier token having been emitted: \<^verbatim>\<open>n_decoded\<close> is \<open>length ts - 1\<close> then.
\<close>

definition stop_condition :: "'s engine \<Rightarrow> int \<Rightarrow> llama_token list \<Rightarrow> bool" where
  "stop_condition E n_predict ts \<longleftrightarrow>
     llama_vocab_is_eog E (last ts) \<or> n_predict \<le> int (length ts) - 1 \<or> 32 \<le> run_len ts"

text \<open>No stop of any kind after the last token of \<open>ts\<close>: the token is emitted.\<close>

definition keeps_going :: "'s engine \<Rightarrow> int \<Rightarrow> llama_token list \<Rightarrow> bool" where
  "keeps_going E n_predict ts \<longleftrightarrow>
     \<not> stop_condition E n_predict ts \<and> llama_token_to_piece E (last ts) \<noteq> None
     \<and> suspicious_run (pieces E ts) < 10"

text \<open>The token that the iteration starting in \<open>g\<close> samples, and the engine state after it.\<close>

definition next_token :: "'s engine \<Rightarrow> 's gen_state \<Rightarrow> llama_token" where
  "next_token E g = fst (llama_sampler_sample E (snd (llama_decode E (ctx g) (batch g))))"

definition next_ctx :: "'s engine \<Rightarrow> 's gen_state \<Rightarrow> 's" where
  "next_ctx E g = snd (llama_sampler_sample E (snd (llama_decode E (ctx g) (batch g))))"

definition next_run :: "'s engine \<Rightarrow> 's gen_state \<Rightarrow> int" where
  "next_run E g = (if next_token E g = last_token_id g then same_token_count g + 1 else 1)"

text \<open>
  What holds of the loop variables whenever an iteration starts, in terms of the tokens
  sampled so far in this call.
\<close>

definition gen_inv :: "'s engine \<Rightarrow> int \<Rightarrow> 's gen_state \<Rightarrow> bool" where
  "gen_inv E n_predict g \<longleftrightarrow>
     (let ts = sampled (events g) in
      n_decoded g = int (length ts)
      \<and> same_token_count g = int (run_len ts)
      \<and> (ts \<noteq> [] \<longrightarrow> last_token_id g = last ts)
      \<and> anomaly_count g = int (suspicious_run (pieces E ts))
      \<and> response g = concat (pieces E ts)
      \<and> printed (events g) = map c_str (pieces E ts)
      \<and> (\<forall>us. prefix us ts \<and> us \<noteq> [] \<longrightarrow> keeps_going E n_predict us))"

text \<open>What holds when the loop has ended with the result \<open>r\<close> in the state \<open>g\<close>.\<close>

definition gen_post :: "'s engine \<Rightarrow> int \<Rightarrow> ending + string \<Rightarrow> 's gen_state \<Rightarrow> bool" where
  "gen_post E n_predict r g \<longleftrightarrow>
     (let ts = sampled (events g) in
      (\<forall>us. strict_prefix us ts \<and> us \<noteq> [] \<longrightarrow> keeps_going E n_predict us)
      \<and> (case r of
            Inl e \<Rightarrow>
              anomaly_count g < 10 \<and> suspicious_run (pieces E ts) < 10
              \<and> (ts \<noteq> [] \<longrightarrow> \<not> stop_condition E n_predict ts)
          | Inr resp \<Rightarrow>
              ts \<noteq> [] \<and> resp = concat (pieces E (butlast ts)) \<and> response g = resp
              \<and> n_decoded g = int (length ts) - 1
              \<and> same_token_count g = int (run_len ts)
              \<and> (if stop_condition E n_predict ts
                   then printed (events g) = map c_str (pieces E (butlast ts))
                        \<and> anomaly_count g = int (suspicious_run (pieces E (butlast ts)))
                        \<and> anomaly_count g < 10
                   else llama_token_to_piece E (last ts) \<noteq> None
                        \<and> suspicious_run (pieces E ts) = 10
                        \<and> anomaly_count g = 10
                        \<and> printed (events g)
                            = map c_str (pieces E (butlast ts)) @ anomaly_warning)))"

text \<open>
  The contract of the template renderer: it reports the length of the text \<open>render msgs a\<close>
  and writes as much of it as the buffer holds. A renderer is append-only when one more
  message leaves what was rendered without the generation suffix in place.
\<close>

definition renders ::
  "'s engine \<Rightarrow> (llama_chat_message list \<Rightarrow> bool \<Rightarrow> string) \<Rightarrow> bool" where
  "renders E render \<longleftrightarrow>
     (\<forall>msgs a n. llama_chat_apply_template E msgs a n
                   = (int (length (render msgs a)), take n (render msgs a)))"

definition append_only :: "(llama_chat_message list \<Rightarrow> bool \<Rightarrow> string) \<Rightarrow> bool" where
  "append_only render \<longleftrightarrow> (\<forall>msgs m a. prefix (render msgs False) (render (msgs @ [m]) a))"

text \<open>
  The tokenisation of lines 112 to 119 in names: whether the context holds no token of the
  sequence (\<open>used = 0\<close>), the number of tokens that the first call of the tokenizer asks
  for, whether both calls succeed, and the two calls as events.
\<close>

definition is_first :: "'s engine \<Rightarrow> 's \<Rightarrow> bool" where
  "is_first E c \<longleftrightarrow> llama_memory_seq_pos_max E c + 1 = 0"

definition n_prompt_tokens :: "'s engine \<Rightarrow> 's \<Rightarrow> string \<Rightarrow> int" where
  "n_prompt_tokens E c prompt = int32 (- fst (llama_tokenize E prompt 0 (is_first E c) True))"

definition tokenize_ok :: "'s engine \<Rightarrow> 's \<Rightarrow> string \<Rightarrow> bool" where
  "tokenize_ok E c prompt \<longleftrightarrow>
     0 \<le> n_prompt_tokens E c prompt
     \<and> 0 \<le> fst (llama_tokenize E prompt (n_prompt_tokens E c prompt) (is_first E c) True)"

definition tokenize_events :: "'s engine \<Rightarrow> 's \<Rightarrow> string \<Rightarrow> 's event list" where
  "tokenize_events E c prompt =
     (if n_prompt_tokens E c prompt < 0 then [Tokenize prompt 0 (is_first E c) True]
      else [Tokenize prompt 0 (is_first E c) True,
            Tokenize prompt (n_prompt_tokens E c prompt) (is_first E c) True])"

text \<open>The batch of the first iteration of a call of \<^verbatim>\<open>generate\<close>.\<close>

definition prompt_batch :: "'s engine \<Rightarrow> 's \<Rightarrow> string \<Rightarrow> llama_token list" where
  "prompt_batch E c prompt =
     take (nat (n_prompt_tokens E c prompt))
       (snd (llama_tokenize E prompt (n_prompt_tokens E c prompt) (is_first E c) True)
        @ replicate (nat (n_prompt_tokens E c prompt)) 0)"

text \<open>
  What holds of \<^verbatim>\<open>prev_len\<close> whenever the loop of \<^verbatim>\<open>main\<close> starts an iteration: it is 0 before
  the first turn and the length of the rendered conversation afterwards.
\<close>

definition chat_inv ::
  "(llama_chat_message list \<Rightarrow> bool \<Rightarrow> string) \<Rightarrow> 's chat_state \<Rightarrow> bool" where
  "chat_inv render st \<longleftrightarrow>
     prev_len st = (if messages st = [] then 0 else int (length (render (messages st) False)))"

subsection \<open>A small engine to run the program on\<close>

text \<open>
  The state is the number of occupied positions and the tokens that the sampler will
  return, in order; when they are used up it returns the end-of-generation token 2.
  Decoding always succeeds and occupies one position for each token of the batch. A byte
  of the prompt is a token, after token 1 when special tokens are added. Token 40 is
  displayed as an opening parenthesis, token 0 as the empty piece, token 3 has no piece,
  every other token is displayed as \<open>x\<close>.
\<close>

definition toy_piece :: "llama_token \<Rightarrow> string option" where
  "toy_piece t =
     (if t = 40 then Some ''('' else if t = 0 then Some [] else if t = 3 then None
      else Some ''x'')"

definition toy_tokens :: "string \<Rightarrow> bool \<Rightarrow> llama_token list" where
  "toy_tokens text add_special =
     (if add_special then [1] else []) @ map (\<lambda>c. int (of_char c :: nat)) text"

definition toy_render :: "llama_chat_message list \<Rightarrow> bool \<Rightarrow> string" where
  "toy_render msgs add_ass =
     concat (map (\<lambda>m. ''<'' @ fst m @ ''>'' @ snd m @ ''|'') msgs)
     @ (if add_ass then ''<assistant>'' else [])"

definition toy_engine :: "int \<Rightarrow> (int \<times> llama_token list) engine" where
  "toy_engine capacity =
     \<lparr>llama_n_ctx = (\<lambda>s. capacity),
      llama_memory_seq_pos_max = (\<lambda>s. fst s - 1),
      llama_tokenize = (\<lambda>text n_max add_special parse_special.
         let toks = toy_tokens text add_special
         in if int (length toks) > n_max then (- int (length toks), [])
            else (int (length toks), toks)),
      llama_decode = (\<lambda>s b. (0, (fst s + int (length b), snd s))),
      llama_sampler_sample = (\<lambda>s. case snd s of [] \<Rightarrow> (2, s) | t # ts \<Rightarrow> (t, (fst s, ts))),
      llama_vocab_is_eog = (\<lambda>t. t = 2),
      llama_token_to_piece = toy_piece,
      llama_chat_apply_template = (\<lambda>msgs add_ass n.
         (int (length (toy_render msgs add_ass)), take n (toy_render msgs add_ass)))\<rparr>"

text \<open>An engine whose tokenizer replies \<open>-2^31\<close>, whatever it is asked.\<close>

definition refusing_engine :: "int \<Rightarrow> (int \<times> llama_token list) engine" where
  "refusing_engine capacity =
     (toy_engine capacity)\<lparr>llama_tokenize :=
        (\<lambda>text n_max add_special parse_special. (- 2147483648, []))\<rparr>"

text \<open>An engine whose template renderer fails as soon as a message has the content \<open>x\<close>.\<close>

definition broken_engine :: "int \<Rightarrow> (int \<times> llama_token list) engine" where
  "broken_engine capacity =
     (toy_engine capacity)\<lparr>llama_chat_apply_template := (\<lambda>msgs add_ass n.
         if ''x'' \<in> snd ` set msgs then (-1, [])
         else (int (length (toy_render msgs add_ass)), take n (toy_render msgs add_ass)))\<rparr>"

text \<open>
  An engine of capacity 8 whose template renderer fails on a buffer of more than 8 bytes:
  the first rendering of a turn asks for a larger buffer and the second one fails.
\<close>

definition fickle_engine :: "(int \<times> llama_token list) engine" where
  "fickle_engine =
     (toy_engine 8)\<lparr>llama_chat_apply_template := (\<lambda>msgs add_ass n.
         if 8 < n then (-1, [])
         else (int (length (toy_render msgs add_ass)), take n (toy_render msgs add_ass)))\<rparr>"

section \<open>Auxiliary facts\<close>

subsection \<open>Values of \<^verbatim>\<open>int\<close>\<close>

lemma int32_id: "- 2147483648 \<le> x \<Longrightarrow> x < 2147483648 \<Longrightarrow> int32 x = x"
  by (simp add: int32_def)

lemma int32_less: "int32 x < 2147483648"
proof -
  have "(x + 2147483648) mod 4294967296 < 4294967296" by simp
  then show ?thesis by (simp add: int32_def)
qed

lemma int32_ge: "- 2147483648 \<le> int32 x"
proof -
  have "0 \<le> (x + 2147483648) mod 4294967296" by simp
  then show ?thesis by (simp add: int32_def)
qed

lemma int32_size_le: "int32 (int k) \<le> int k"
proof (cases "int k < 2147483648")
  case True
  then show ?thesis by (simp add: int32_id)
next
  case False
  with int32_less [of "int k"] show ?thesis by simp
qed

lemma fits_in_int_range:
  "in_int_range E c b \<Longrightarrow> fits E c b \<longleftrightarrow> within_capacity E c b"
  by (simp add: in_int_range_def fits_def within_capacity_def int32_id)

subsection \<open>One iteration, by the way it ends\<close>

lemma gen_step_ContinueD:
  assumes "gen_step E n g = Continue g'"
  shows "\<exists>p. fits E (ctx g) (batch g) \<and> fst (llama_decode E (ctx g) (batch g)) = 0
     \<and> \<not> llama_vocab_is_eog E (next_token E g) \<and> n_decoded g < n \<and> next_run E g < 32
     \<and> llama_token_to_piece E (next_token E g) = Some p
     \<and> anomaly_next p (anomaly_count g) < 10
     \<and> g' = \<lparr>ctx = next_ctx E g,
             events = events g @ [Decode (ctx g) (batch g), Sample (next_token E g), Stdout (c_str p)],
             batch = [next_token E g], last_token_id = next_token E g,
             same_token_count = next_run E g,
             anomaly_count = anomaly_next p (anomaly_count g),
             n_decoded = n_decoded g + 1, response = response g @ p\<rparr>"
  using assms
  by (auto simp: gen_step_def Let_def fits_def next_token_def next_ctx_def next_run_def
           split: if_splits option.splits)

lemma gen_step_ReturnD:
  assumes "gen_step E n g = Stop (Inr r) g'"
  shows "fits E (ctx g) (batch g) \<and> fst (llama_decode E (ctx g) (batch g)) = 0
     \<and> r = response g \<and> response g' = response g \<and> n_decoded g' = n_decoded g
     \<and> ctx g' = next_ctx E g \<and> last_token_id g' = next_token E g
     \<and> same_token_count g' = next_run E g
     \<and> ((llama_vocab_is_eog E (next_token E g) \<or> n_decoded g \<ge> n \<or> next_run E g \<ge> 32)
          \<and> events g' = events g @ [Decode (ctx g) (batch g), Sample (next_token E g)]
          \<and> anomaly_count g' = anomaly_count g
        \<or> \<not> llama_vocab_is_eog E (next_token E g) \<and> n_decoded g < n \<and> next_run E g < 32
          \<and> (\<exists>p. llama_token_to_piece E (next_token E g) = Some p
               \<and> anomaly_next p (anomaly_count g) \<ge> 10
               \<and> anomaly_count g' = anomaly_next p (anomaly_count g))
          \<and> events g' = events g @ [Decode (ctx g) (batch g), Sample (next_token E g)]
                          @ map Stdout anomaly_warning)"
  using assms
  by (auto simp: gen_step_def Let_def fits_def next_token_def next_ctx_def next_run_def
           split: if_splits option.splits)

lemma gen_step_FailD:
  assumes "gen_step E n g = Stop (Inl e) g'"
  shows "\<not> fits E (ctx g) (batch g) \<and> e = Exit 0
          \<and> g' = g\<lparr>events := events g @ [Stdout (esc # ''[0m\<newline>''), Stderr ''context size exceeded\<newline>'']\<rparr>
       \<or> fits E (ctx g) (batch g) \<and> fst (llama_decode E (ctx g) (batch g)) \<noteq> 0
          \<and> e = Ggml_Abort ''failed to decode, ret = %d\<newline>''
          \<and> events g' = events g @ [Decode (ctx g) (batch g)] \<and> response g' = response g
          \<and> anomaly_count g' = anomaly_count g
       \<or> fits E (ctx g) (batch g) \<and> fst (llama_decode E (ctx g) (batch g)) = 0
          \<and> \<not> llama_vocab_is_eog E (next_token E g) \<and> n_decoded g < n \<and> next_run E g < 32
          \<and> llama_token_to_piece E (next_token E g) = None
          \<and> e = Ggml_Abort ''failed to convert token to piece\<newline>''
          \<and> events g' = events g @ [Decode (ctx g) (batch g), Sample (next_token E g)]
          \<and> response g' = response g \<and> anomaly_count g' = anomaly_count g"
  using assms
  by (auto simp: gen_step_def Let_def fits_def next_token_def next_ctx_def next_run_def
           split: if_splits option.splits)

lemma gen_step_emit:
  assumes "fits E (ctx g) (batch g)" "fst (llama_decode E (ctx g) (batch g)) = 0"
    "\<not> llama_vocab_is_eog E (next_token E g)" "n_decoded g < n" "next_run E g < 32"
    "llama_token_to_piece E (next_token E g) = Some p"
    "anomaly_next p (anomaly_count g) < 10"
  shows "gen_step E n g = Continue
     \<lparr>ctx = next_ctx E g,
      events = events g @ [Decode (ctx g) (batch g), Sample (next_token E g), Stdout (c_str p)],
      batch = [next_token E g], last_token_id = next_token E g,
      same_token_count = next_run E g,
      anomaly_count = anomaly_next p (anomaly_count g),
      n_decoded = n_decoded g + 1, response = response g @ p\<rparr>"
  using assms
  by (auto simp: gen_step_def Let_def fits_def next_ctx_def next_token_def next_run_def)

subsection \<open>An invariant rule for the loop\<close>

lemma gen_loop_rule_aux:
  "I g \<Longrightarrow> \<forall>g g'. I g \<longrightarrow> gen_step E n g = Continue g' \<longrightarrow> I g' \<Longrightarrow>
   \<forall>g r g'. I g \<longrightarrow> gen_step E n g = Stop r g' \<longrightarrow> Q r g' \<Longrightarrow>
   Q (fst (gen_loop E n g)) (snd (gen_loop E n g))"
proof (induction E n g rule: gen_loop.induct)
  case (1 E n g)
  show ?case
  proof (cases "gen_step E n g")
    case (Continue g')
    with 1(2,3) have "I g'" by blast
    from "1.IH" [OF Continue this 1(3) 1(4)] Continue show ?thesis
      by (simp add: gen_loop.simps [of E n g])
  next
    case (Stop r g')
    with 1(2,4) have "Q r g'" by blast
    with Stop show ?thesis by (simp add: gen_loop.simps [of E n g])
  qed
qed

lemma gen_loop_rule:
  assumes "I g"
    and "\<And>g g'. I g \<Longrightarrow> gen_step E n g = Continue g' \<Longrightarrow> I g'"
    and "\<And>g r g'. I g \<Longrightarrow> gen_step E n g = Stop r g' \<Longrightarrow> Q r g'"
  shows "Q (fst (gen_loop E n g)) (snd (gen_loop E n g))"
  using assms by (intro gen_loop_rule_aux [where I = I]) blast+

subsection \<open>The loop variables and the sampled tokens\<close>

lemma sampled_append [simp]: "sampled (es @ fs) = sampled es @ sampled fs"
  by (induction es rule: sampled.induct) auto

lemma printed_append [simp]: "printed (es @ fs) = printed es @ printed fs"
  by (induction es rule: printed.induct) auto

lemma sampled_map_Stdout [simp]: "sampled (map Stdout xs) = []"
  by (induction xs) auto

lemma printed_map_Stdout [simp]: "printed (map Stdout xs) = xs"
  by (induction xs) auto

lemma run_len_Nil [simp]: "run_len [] = 0"
  by (simp add: run_len_def)

lemma run_len_snoc:
  "run_len (ts @ [t]) = (if ts \<noteq> [] \<and> last ts = t then run_len ts + 1 else 1)"
proof (cases ts rule: rev_cases)
  case Nil
  then show ?thesis by (simp add: run_len_def)
next
  case (snoc us u)
  then show ?thesis by (simp add: run_len_def)
qed

lemma suspicious_run_Nil [simp]: "suspicious_run [] = 0"
  by (simp add: suspicious_run_def)

lemma suspicious_run_snoc:
  "suspicious_run (ps @ [p]) = (if suspicious p then suspicious_run ps + 1 else 0)"
  by (simp add: suspicious_run_def)

lemma anomaly_next_suspicious:
  "anomaly_next p c = (if suspicious p then c + 1 else 0)"
proof (cases p)
  case Nil
  then show ?thesis
    by (simp add: anomaly_next_def suspicious_def glyph_o_acute_def glyph_g_o_acute_def)
next
  case (Cons a q)
  then show ?thesis
    by (cases q)
       (auto simp: anomaly_next_def suspicious_def glyph_o_acute_def glyph_g_o_acute_def)
qed

lemma pieces_snoc: "pieces E (ts @ [t]) = pieces E ts @ [piece_of E t]"
  by (simp add: pieces_def)

lemma gen_inv_init:
  "sampled es = [] \<Longrightarrow> printed es = [] \<Longrightarrow> gen_inv E n (gen_init c es b)"
  by (simp add: gen_inv_def gen_init_def pieces_def)

lemma stop_condition_snoc:
  "stop_condition E n (ts @ [t]) \<longleftrightarrow>
     llama_vocab_is_eog E t \<or> n \<le> int (length ts) \<or> 32 \<le> run_len (ts @ [t])"
  by (simp add: stop_condition_def)

lemma gen_inv_next_run:
  assumes "gen_inv E n g"
  shows "next_run E g = int (run_len (sampled (events g) @ [next_token E g]))"
  using assms by (auto simp: gen_inv_def Let_def next_run_def run_len_snoc)

lemma gen_inv_Continue:
  assumes inv: "gen_inv E n g" and step: "gen_step E n g = Continue g'"
  shows "gen_inv E n g'"
proof -
  define ts where "ts = sampled (events g)"
  define t where "t = next_token E g"
  from gen_step_ContinueD [OF step] obtain p where
    neog: "\<not> llama_vocab_is_eog E t" and nd: "n_decoded g < n" and nr: "next_run E g < 32"
    and pc: "llama_token_to_piece E t = Some p"
    and an: "anomaly_next p (anomaly_count g) < 10"
    and g': "g' = \<lparr>ctx = next_ctx E g,
             events = events g @ [Decode (ctx g) (batch g), Sample t, Stdout (c_str p)],
             batch = [t], last_token_id = t,
             same_token_count = next_run E g,
             anomaly_count = anomaly_next p (anomaly_count g),
             n_decoded = n_decoded g + 1, response = response g @ p\<rparr>"
    unfolding t_def by blast
  have ts': "sampled (events g') = ts @ [t]" by (simp add: g' ts_def)
  have po: "piece_of E t = p" by (simp add: piece_of_def pc)
  from inv have i1: "n_decoded g = int (length ts)"
    and i4: "anomaly_count g = int (suspicious_run (pieces E ts))"
    and i5: "response g = concat (pieces E ts)"
    and i6: "printed (events g) = map c_str (pieces E ts)"
    and i7: "\<And>us. prefix us ts \<Longrightarrow> us \<noteq> [] \<Longrightarrow> keeps_going E n us"
    by (simp_all add: gen_inv_def Let_def ts_def)
  have run: "next_run E g = int (run_len (ts @ [t]))"
    using gen_inv_next_run [OF inv] by (simp add: ts_def t_def)
  have an': "anomaly_next p (anomaly_count g) = int (suspicious_run (pieces E (ts @ [t])))"
    by (simp add: pieces_snoc po suspicious_run_snoc anomaly_next_suspicious i4)
  have kg: "keeps_going E n (ts @ [t])"
    using neog nd nr pc an run an' i1
    by (simp add: keeps_going_def stop_condition_snoc)
  have hist: "keeps_going E n us" if "prefix us (ts @ [t])" "us \<noteq> []" for us
    using that kg i7 by auto
  show ?thesis
    unfolding gen_inv_def Let_def ts'
    using hist run an' i1 i5 i6
    by (simp add: g' pieces_snoc po)
qed

lemma strict_prefix_snoc_iff: "strict_prefix us (ts @ [t]) \<longleftrightarrow> prefix us ts"
  by (auto simp: strict_prefix_def)

lemma gen_inv_anomaly_bound:
  assumes "gen_inv E n g"
  shows "anomaly_count g < 10"
proof (cases "sampled (events g) = []")
  case True
  with assms show ?thesis by (simp add: gen_inv_def Let_def pieces_def)
next
  case False
  with assms have "keeps_going E n (sampled (events g))"
    by (simp add: gen_inv_def Let_def)
  with assms show ?thesis by (simp add: gen_inv_def Let_def keeps_going_def)
qed

lemma gen_inv_counters:
  assumes "gen_inv E n g"
  shows "0 \<le> same_token_count g \<and> same_token_count g < 32
     \<and> 0 \<le> anomaly_count g \<and> anomaly_count g < 10
     \<and> 0 \<le> n_decoded g \<and> (n_decoded g = 0 \<or> n_decoded g \<le> n)"
proof (cases "sampled (events g) = []")
  case True
  with assms show ?thesis by (simp add: gen_inv_def Let_def pieces_def)
next
  case False
  with assms have "keeps_going E n (sampled (events g))"
    by (simp add: gen_inv_def Let_def)
  then have "run_len (sampled (events g)) < 32"
    "suspicious_run (pieces E (sampled (events g))) < 10"
    "int (length (sampled (events g))) \<le> n"
    by (simp_all add: keeps_going_def stop_condition_def)
  with assms show ?thesis by (simp add: gen_inv_def Let_def)
qed

lemma gen_inv_Stop:
  assumes inv: "gen_inv E n g" and step: "gen_step E n g = Stop r g'"
  shows "gen_post E n r g'"
proof -
  define ts where "ts = sampled (events g)"
  define t where "t = next_token E g"
  from inv have i1: "n_decoded g = int (length ts)"
    and i4: "anomaly_count g = int (suspicious_run (pieces E ts))"
    and i5: "response g = concat (pieces E ts)"
    and i6: "printed (events g) = map c_str (pieces E ts)"
    and i7: "\<And>us. prefix us ts \<Longrightarrow> us \<noteq> [] \<Longrightarrow> keeps_going E n us"
    by (simp_all add: gen_inv_def Let_def ts_def)
  have run: "next_run E g = int (run_len (ts @ [t]))"
    using gen_inv_next_run [OF inv] by (simp add: ts_def t_def)
  note ab = gen_inv_anomaly_bound [OF inv]
  show ?thesis
  proof (cases r)
    case (Inl e)
    note F = gen_step_FailD [OF step [unfolded Inl], folded t_def]
    have kg: "\<not> stop_condition E n ts" if "ts \<noteq> []"
      using i7 [of ts] that by (simp add: keeps_going_def)
    have sc: "stop_condition E n (ts @ [t]) \<longleftrightarrow>
        llama_vocab_is_eog E t \<or> n \<le> n_decoded g \<or> 32 \<le> next_run E g"
      by (simp add: stop_condition_snoc i1 run)
    have none: "suspicious_run (pieces E (ts @ [t])) = 0" if "llama_token_to_piece E t = None"
      using that by (simp add: pieces_snoc piece_of_def suspicious_run_snoc suspicious_def
          glyph_o_acute_def glyph_g_o_acute_def)
    from F sc kg none
    have "(sampled (events g') = ts \<and> (ts \<noteq> [] \<longrightarrow> \<not> stop_condition E n ts)
           \<or> sampled (events g') = ts @ [t] \<and> \<not> stop_condition E n (ts @ [t])
             \<and> suspicious_run (pieces E (ts @ [t])) = 0)
          \<and> anomaly_count g' = anomaly_count g"
      by (auto simp: ts_def)
    then show ?thesis
      unfolding gen_post_def Let_def Inl using i7 ab i4
      by (auto simp: strict_prefix_snoc_iff dest: prefix_order.less_imp_le)
  next
    case (Inr resp)
    note R = gen_step_ReturnD [OF step [unfolded Inr], folded t_def]
    from R have ts': "sampled (events g') = ts @ [t]"
      by (auto simp: ts_def)
    from R have basic: "resp = response g" "response g' = response g"
      "n_decoded g' = n_decoded g" "same_token_count g' = next_run E g"
      by simp_all
    have sc: "stop_condition E n (ts @ [t]) \<longleftrightarrow>
        llama_vocab_is_eog E t \<or> n \<le> n_decoded g \<or> 32 \<le> next_run E g"
      by (simp add: stop_condition_snoc i1 run)
    show ?thesis
    proof (cases "stop_condition E n (ts @ [t])")
      case True
      with R sc have "events g' = events g @ [Decode (ctx g) (batch g), Sample t]"
        and "anomaly_count g' = anomaly_count g"
        by auto
      then show ?thesis
        unfolding gen_post_def Let_def Inr ts'
        using True basic i1 i4 i5 i6 i7 run ab
        by (simp add: strict_prefix_snoc_iff)
    next
      case False
      with R sc obtain p where pc: "llama_token_to_piece E t = Some p"
        and an: "anomaly_next p (anomaly_count g) \<ge> 10"
        and ac: "anomaly_count g' = anomaly_next p (anomaly_count g)"
        and ev: "events g' = events g @ [Decode (ctx g) (batch g), Sample t]
                          @ map Stdout anomaly_warning"
        by auto
      have po: "piece_of E t = p" by (simp add: piece_of_def pc)
      have an': "anomaly_next p (anomaly_count g) = int (suspicious_run (pieces E (ts @ [t])))"
        by (simp add: pieces_snoc po suspicious_run_snoc anomaly_next_suspicious i4)
      have ten: "anomaly_next p (anomaly_count g) = 10"
        using an ab by (simp add: anomaly_next_suspicious split: if_splits)
      show ?thesis
        unfolding gen_post_def Let_def Inr ts'
        using False basic i1 i5 i6 i7 run pc an' ten ac
        by (simp add: strict_prefix_snoc_iff ev)
    qed
  qed
qed

lemma gen_loop_post:
  assumes "gen_inv E n g"
  shows "gen_post E n (fst (gen_loop E n g)) (snd (gen_loop E n g))"
  using assms by (rule gen_loop_rule) (auto intro: gen_inv_Continue gen_inv_Stop)

lemma generate_post:
  "gen_post E n (fst (generate E n c prompt)) (snd (generate E n c prompt))"
proof -
  have early: "gen_post E n (Inl e) (gen_init c es b)" if "sampled es = []" for e es b
    using that by (simp add: gen_post_def gen_init_def pieces_def)
  show ?thesis
    unfolding generate_def Let_def
    by (auto intro!: early gen_loop_post gen_inv_init)
qed

subsection \<open>The events of the loop\<close>

lemma gen_step_events_grow:
  "gen_step E n g = Continue g' \<or> gen_step E n g = Stop r g' \<Longrightarrow>
     fits E (ctx g) (batch g) \<Longrightarrow>
     \<exists>es. events g' = events g @ Decode (ctx g) (batch g) # es"
  by (cases r)
     (auto dest!: gen_step_ContinueD gen_step_ReturnD gen_step_FailD)

lemma gen_step_events_prefix:
  "gen_step E n g = Continue g' \<or> gen_step E n g = Stop r g' \<Longrightarrow>
     prefix (events g) (events g')"
  by (cases r)
     (auto dest!: gen_step_ContinueD gen_step_ReturnD gen_step_FailD)

lemma gen_loop_events_prefix:
  "prefix (events g) (events (snd (gen_loop E n g)))"
  by (rule gen_loop_rule [where I = "\<lambda>x. prefix (events g) (events x)"
                            and Q = "\<lambda>r x. prefix (events g) (events x)"])
     (auto dest: gen_step_events_prefix [OF disjI1] gen_step_events_prefix [OF disjI2])

lemma gen_step_overflow:
  "\<not> fits E (ctx g) (batch g) \<Longrightarrow>
     gen_step E n g = Stop (Inl (Exit 0))
       (g\<lparr>events := events g @
            [Stdout (esc # ''[0m\<newline>''), Stderr ''context size exceeded\<newline>'']\<rparr>)"
  by (simp add: gen_step_def fits_def Let_def)

lemma gen_loop_first_decode:
  assumes "fits E (ctx g) (batch g)"
  shows "\<exists>es. events (snd (gen_loop E n g)) = events g @ Decode (ctx g) (batch g) # es"
proof (cases "gen_step E n g")
  case (Continue g')
  with assms obtain es where es: "events g' = events g @ Decode (ctx g) (batch g) # es"
    using gen_step_events_grow by blast
  from gen_loop_events_prefix [of g' E n]
  obtain fs where "events (snd (gen_loop E n g')) = events g' @ fs"
    by (auto simp: prefix_def)
  with es Continue show ?thesis by (simp add: gen_loop.simps [of E n g])
next
  case (Stop r g')
  with assms obtain es where es: "events g' = events g @ Decode (ctx g) (batch g) # es"
    using gen_step_events_grow by blast
  with Stop show ?thesis by (simp add: gen_loop.simps [of E n g])
qed

lemma gen_loop_decodes_fit:
  assumes "decodes_fit E (events g)"
  shows "decodes_fit E (events (snd (gen_loop E n g)))"
  using assms
proof (rule gen_loop_rule [where Q = "\<lambda>r x. decodes_fit E (events x)"])
  fix g g' assume "decodes_fit E (events g)" "gen_step E n g = Continue g'"
  then show "decodes_fit E (events g')"
    by (auto simp: decodes_fit_def dest!: gen_step_ContinueD)
next
  fix g r g' assume "decodes_fit E (events g)" "gen_step E n g = Stop r g'"
  then show "decodes_fit E (events g')"
    by (cases r) (auto simp: decodes_fit_def dest!: gen_step_ReturnD gen_step_FailD)
qed

lemma generate_decodes_fit:
  "decodes_fit E (events (snd (generate E n c prompt)))"
proof -
  have "decodes_fit E (events (gen_init c es b))" if "\<forall>e \<in> set es. \<not> is_Decode e" for es b
    using that by (auto simp: decodes_fit_def gen_init_def)
  then show ?thesis
    unfolding generate_def Let_def
    by (auto intro!: gen_loop_decodes_fit)
qed

subsection \<open>Runs of identical tokens\<close>

lemma keeps_going_run: "keeps_going E n us \<Longrightarrow> run_len us < 32"
  by (auto simp: keeps_going_def stop_condition_def)

lemma run_len_butlast: "ts \<noteq> [] \<Longrightarrow> run_len ts \<le> run_len (butlast ts) + 1"
  by (cases ts rule: rev_cases) (auto simp: run_len_snoc)

lemma strict_prefix_butlast: "ts \<noteq> [] \<Longrightarrow> strict_prefix (butlast ts) ts"
  by (cases ts rule: rev_cases) (auto simp: strict_prefix_snoc_iff)

lemma run_len_replicate: "run_len (replicate k t) = k"
  by (cases "k = 0") (simp_all add: run_len_def)

subsection \<open>Runs of suspicious pieces\<close>

lemma suspicious_paren [simp]: "suspicious ''(''"
  by (simp add: suspicious_def)

lemma not_suspicious_Nil [simp]: "\<not> suspicious []"
  by (simp add: suspicious_def glyph_o_acute_def glyph_g_o_acute_def)

lemma suspicious_run_append_replicate:
  "suspicious p \<Longrightarrow> suspicious_run (ps @ replicate k p) = suspicious_run ps + k"
  by (simp add: suspicious_run_def takeWhile_append)

lemma suspicious_run_reset:
  "\<not> suspicious q \<Longrightarrow> suspicious_run (ps @ q # qs) = suspicious_run qs"
  by (simp add: suspicious_run_def takeWhile_append)
     (metis length_rev set_rev takeWhile_eq_all_conv)

lemma suspicious_run_le: "suspicious_run ps \<le> length ps"
  by (simp add: suspicious_run_def) (metis length_rev length_takeWhile_le)

lemma c_str_paren [simp]: "c_str ''('' = ''(''"
  by (simp add: c_str_def)

text \<open>What the end of a call says about the anomaly counter.\<close>

lemma generate_anomaly_stop:
  assumes gen: "generate E n c prompt = (r, g)" and ts: "ts = sampled (events g)"
  shows "anomaly_count g \<le> 10"
    and "anomaly_count g = 10 \<longleftrightarrow>
           ts \<noteq> [] \<and> \<not> stop_condition E n ts \<and> suspicious_run (pieces E ts) \<ge> 10"
    and "anomaly_count g = 10 \<Longrightarrow>
           r = Inr (concat (pieces E (butlast ts)))
           \<and> response g = concat (pieces E (butlast ts))
           \<and> printed (events g) = map c_str (pieces E (butlast ts)) @ anomaly_warning
           \<and> suspicious_run (pieces E ts) = 10
           \<and> llama_token_to_piece E (last ts) \<noteq> None"
    and "strict_prefix us ts \<Longrightarrow> suspicious_run (pieces E us) < 10"
proof -
  from generate_post [of E n c prompt] gen have post: "gen_post E n r g" by simp
  show "anomaly_count g \<le> 10"
    using post by (cases r) (auto simp: gen_post_def Let_def split: if_splits)
  show "anomaly_count g = 10 \<longleftrightarrow>
           ts \<noteq> [] \<and> \<not> stop_condition E n ts \<and> suspicious_run (pieces E ts) \<ge> 10"
    using post by (cases r) (auto simp: gen_post_def Let_def ts pieces_def split: if_splits)
  show "r = Inr (concat (pieces E (butlast ts)))
           \<and> response g = concat (pieces E (butlast ts))
           \<and> printed (events g) = map c_str (pieces E (butlast ts)) @ anomaly_warning
           \<and> suspicious_run (pieces E ts) = 10
           \<and> llama_token_to_piece E (last ts) \<noteq> None" if "anomaly_count g = 10"
    using post that by (cases r) (auto simp: gen_post_def Let_def ts split: if_splits)
  show "suspicious_run (pieces E us) < 10" if "strict_prefix us ts"
  proof (cases "us = []")
    case True
    then show ?thesis by (simp add: pieces_def)
  next
    case False
    with post that have "keeps_going E n us" by (simp add: gen_post_def Let_def ts)
    then show ?thesis by (simp add: keeps_going_def)
  qed
qed

lemma pieces_butlast_last:
  "ts \<noteq> [] \<Longrightarrow> pieces E ts = pieces E (butlast ts) @ [piece_of E (last ts)]"
  by (cases ts rule: rev_cases) (simp_all add: pieces_def)

lemma generate_classified_return:
  assumes gen: "generate E n c prompt = (r, g)" and ts: "ts = sampled (events g)"
    and ne: "ts \<noteq> []" and ns: "\<not> stop_condition E n ts"
  shows "(\<exists>resp. r = Inr resp) \<longleftrightarrow> 10 \<le> suspicious_run (pieces E ts)"
proof -
  from generate_post [of E n c prompt] gen have post: "gen_post E n r g" by simp
  show ?thesis
  proof (cases r)
    case (Inl e)
    with post ts show ?thesis by (simp add: gen_post_def Let_def)
  next
    case (Inr resp)
    with post ts ns show ?thesis by (simp add: gen_post_def Let_def)
  qed
qed

lemma generate_returns:
  assumes gen: "generate E n c prompt = (Inr resp, g)" and ts: "ts = sampled (events g)"
  shows "\<not> stop_condition E n ts \<Longrightarrow>
           suspicious_run (pieces E ts) = 10 \<and> anomaly_count g = 10
           \<and> resp = concat (pieces E (butlast ts))
           \<and> printed (events g) = map c_str (pieces E (butlast ts)) @ anomaly_warning"
    and "stop_condition E n ts \<Longrightarrow>
           anomaly_count g = int (suspicious_run (pieces E (butlast ts)))
           \<and> anomaly_count g < 10
           \<and> printed (events g) = map c_str (pieces E (butlast ts))"
proof -
  from generate_post [of E n c prompt] gen have post: "gen_post E n (Inr resp) g" by simp
  show "\<not> stop_condition E n ts \<Longrightarrow>
           suspicious_run (pieces E ts) = 10 \<and> anomaly_count g = 10
           \<and> resp = concat (pieces E (butlast ts))
           \<and> printed (events g) = map c_str (pieces E (butlast ts)) @ anomaly_warning"
    using post ts by (simp add: gen_post_def Let_def)
  show "stop_condition E n ts \<Longrightarrow>
           anomaly_count g = int (suspicious_run (pieces E (butlast ts)))
           \<and> anomaly_count g < 10
           \<and> printed (events g) = map c_str (pieces E (butlast ts))"
    using post ts by (simp add: gen_post_def Let_def)
qed

lemma anomaly_warning_lengths: "map length anomaly_warning = [33, 53, 44, 39, 48]"
  by (simp add: anomaly_warning_def)

subsection \<open>The start of a call\<close>

lemma is_first_iff: "is_first E c \<longleftrightarrow> llama_memory_seq_pos_max E c = -1"
  by (auto simp: is_first_def)

lemma generate_unfold:
  "generate E n c prompt =
     (if n_prompt_tokens E c prompt < 0
      then (Inl Uncaught_Exception, gen_init c (tokenize_events E c prompt) [])
      else if fst (llama_tokenize E prompt (n_prompt_tokens E c prompt) (is_first E c) True) < 0
      then (Inl (Ggml_Abort ''failed to tokenize the prompt\<newline>''),
            gen_init c (tokenize_events E c prompt) (prompt_batch E c prompt))
      else gen_loop E n (gen_init c (tokenize_events E c prompt) (prompt_batch E c prompt)))"
  by (simp add: generate_def Let_def n_prompt_tokens_def tokenize_events_def prompt_batch_def
      is_first_iff)

lemma length_prompt_batch:
  "length (prompt_batch E c prompt) = nat (n_prompt_tokens E c prompt)"
  by (simp add: prompt_batch_def Let_def n_prompt_tokens_def is_first_iff)

lemma gen_step_tokenize:
  "gen_step E n g = Continue g' \<or> gen_step E n g = Stop r g' \<Longrightarrow>
     filter is_Tokenize (events g') = filter is_Tokenize (events g)"
  by (cases r) (auto dest!: gen_step_ContinueD gen_step_ReturnD gen_step_FailD)

lemma gen_loop_tokenize:
  "filter is_Tokenize (events (snd (gen_loop E n g))) = filter is_Tokenize (events g)"
  by (rule gen_loop_rule
        [where I = "\<lambda>x. filter is_Tokenize (events x) = filter is_Tokenize (events g)"
           and Q = "\<lambda>r x. filter is_Tokenize (events x) = filter is_Tokenize (events g)"])
     (auto dest: gen_step_tokenize [OF disjI1] gen_step_tokenize [OF disjI2])

lemma gen_step_stop_now:
  assumes "n \<le> n_decoded g" "fits E (ctx g) (batch g)"
    "fst (llama_decode E (ctx g) (batch g)) = 0"
  shows "gen_step E n g =
     Stop (Inr (response g))
       (g\<lparr>ctx := next_ctx E g,
          events := events g @ [Decode (ctx g) (batch g), Sample (next_token E g)],
          same_token_count := next_run E g,
          last_token_id := next_token E g\<rparr>)"
  using assms
  by (simp add: gen_step_def Let_def fits_def next_ctx_def next_token_def next_run_def)

lemma gen_step_Return_fits:
  "gen_step E n g = Stop (Inr r) g' \<Longrightarrow>
     fits E (ctx g) (batch g) \<and> fst (llama_decode E (ctx g) (batch g)) = 0"
  by (auto dest: gen_step_ReturnD)

subsection \<open>The parts of a turn\<close>

lemma length_overlay [simp]: "length (overlay w buf) = length buf"
  by (simp add: overlay_def)

lemma length_resize [simp]: "length (resize k buf) = k"
  by (simp add: resize_def)

lemma render_resizing_first_negative:
  assumes "length buf < 2147483648"
    and "fst (llama_chat_apply_template E msgs True (length buf)) < 0"
  shows "\<exists>b. render_resizing E msgs buf
               = Inr (fst (llama_chat_apply_template E msgs True (length buf)), b)"
  using assms by (simp add: render_resizing_def render_into_def Let_def int32_id)

lemma render_resizing_throws:
  assumes "int32 (int (length buf)) < fst (llama_chat_apply_template E msgs True (length buf))"
    and "fst (llama_chat_apply_template E msgs True (length buf)) < 0"
  shows "render_resizing E msgs buf = Inl Uncaught_Exception"
  using assms by (simp add: render_resizing_def render_into_def Let_def)

lemma format_prompt_negative:
  assumes "render_resizing E (messages st @ [(''user'', c_str user)]) (formatted st)
             = Inr (new_len, buf)"
    and "new_len < 0"
  shows "\<exists>st'. format_prompt E user st = Inl (Exit 1, st')
     \<and> chat_log st' = chat_log st @ [Stderr ''failed to apply the chat template\<newline>'']"
  using assms by (simp add: format_prompt_def Let_def)

lemma commit_response_negative:
  assumes "fst (llama_chat_apply_template E (messages st @ [(''assistant'', c_str resp)]) False 0)
            < 0"
  shows "\<exists>st'. commit_response E resp st = Inl (Exit 1, st')
     \<and> last (chat_log st') = Stderr ''failed to apply the chat template\<newline>''"
  using assms by (simp add: commit_response_def Let_def)

lemma format_prompt_messages:
  "format_prompt E user st = Inr (prompt, st1) \<Longrightarrow>
     messages st1 = messages st @ [(''user'', c_str user)] \<and> chat_ctx st1 = chat_ctx st
     \<and> prev_len st1 = prev_len st \<and> chat_log st1 = chat_log st"
  by (auto simp: format_prompt_def Let_def split: if_splits sum.splits)

lemma render_resizing_second:
  assumes "int32 (int (length buf)) < fst (llama_chat_apply_template E msgs True (length buf))"
    and "0 \<le> fst (llama_chat_apply_template E msgs True (length buf))"
  shows "\<exists>b. render_resizing E msgs buf
           = Inr (fst (llama_chat_apply_template E msgs True
                         (nat (fst (llama_chat_apply_template E msgs True (length buf))))), b)"
  using assms by (simp add: render_resizing_def render_into_def Let_def)

lemma turn_template_error:
  assumes "render_resizing E (messages st @ [(''user'', c_str user)]) (formatted st)
             = Inr (new_len, buf)" and "new_len < 0" and "user \<noteq> []"
  shows "\<exists>st'. chat_loop E n (user # rest) st = (Exit 1, st')
           \<and> chat_log st' = chat_log (show_prompt st)
                              @ [Stderr ''failed to apply the chat template\<newline>'']"
proof -
  from assms(1)
  have "render_resizing E (messages (show_prompt st) @ [(''user'', c_str user)])
          (formatted (show_prompt st)) = Inr (new_len, buf)"
    by (simp add: show_prompt_def)
  from format_prompt_negative [OF this assms(2)] assms(3)
  show ?thesis by (auto simp: turn_def)
qed

subsection \<open>Turns with a renderer that keeps its contract\<close>

lemma render_resizing_renders:
  assumes "renders E render"
  shows "\<exists>b. render_resizing E msgs buf = Inr (int (length (render msgs True)), b)
            \<and> take (length (render msgs True)) b = render msgs True
            \<and> length (render msgs True) \<le> length b"
proof -
  let ?text = "render msgs True"
  from assms have call: "llama_chat_apply_template E msgs True k
      = (int (length ?text), take k ?text)" for k
    by (simp add: renders_def)
  show ?thesis
  proof (cases "int (length ?text) > int32 (int (length buf))")
    case True
    then show ?thesis
      by (simp add: render_resizing_def render_into_def Let_def call overlay_def)
  next
    case False
    with int32_size_le [of "length buf"] have "length ?text \<le> length buf" by simp
    with False show ?thesis
      by (simp add: render_resizing_def render_into_def Let_def call overlay_def)
  qed
qed

lemma chat_inv_bounds:
  assumes "append_only render" "chat_inv render st"
  shows "0 \<le> prev_len st"
    and "prev_len st \<le> int (length (render (messages st) False))"
    and "prev_len st \<le> int (length (render (messages st @ [m]) a))"
proof -
  from assms(1) have "prefix (render (messages st) False) (render (messages st @ [m]) a)"
    unfolding append_only_def by blast
  then have "length (render (messages st) False) \<le> length (render (messages st @ [m]) a)"
    by (rule prefix_length_le)
  with assms(2) show "0 \<le> prev_len st"
    and "prev_len st \<le> int (length (render (messages st) False))"
    and "prev_len st \<le> int (length (render (messages st @ [m]) a))"
    by (simp_all add: chat_inv_def split: if_splits)
qed

lemma format_prompt_renders:
  assumes r: "renders E render" and a: "append_only render" and i: "chat_inv render st"
  shows "\<exists>F. format_prompt E user st
     = Inr (drop (nat (prev_len st)) (render (messages st @ [(''user'', c_str user)]) True),
            st\<lparr>messages := messages st @ [(''user'', c_str user)], formatted := F\<rparr>)"
proof -
  let ?msgs = "messages st @ [(''user'', c_str user)]"
  from render_resizing_renders [OF r, of ?msgs "formatted st"]
  obtain b where rr: "render_resizing E ?msgs (formatted st)
                        = Inr (int (length (render ?msgs True)), b)"
    and tk: "take (length (render ?msgs True)) b = render ?msgs True"
    and le: "length (render ?msgs True) \<le> length b"
    by blast
  with chat_inv_bounds(1) [OF a i] chat_inv_bounds(3) [OF a i, of "(''user'', c_str user)" True]
  have "format_prompt E user st
     = Inr (drop (nat (prev_len st)) (render ?msgs True),
            st\<lparr>messages := ?msgs, formatted := b\<rparr>)"
    by (simp add: format_prompt_def Let_def)
  then show ?thesis by blast
qed

lemma commit_response_renders:
  assumes "renders E render"
  shows "commit_response E resp st
     = Inr (st\<lparr>chat_log := chat_log st @ [Stdout (CHR ''\<newline>'' # esc # ''[0m'')],
               messages := messages st @ [(''assistant'', c_str resp)],
               prev_len := int (length (render (messages st @ [(''assistant'', c_str resp)])
                                           False))\<rparr>)"
  using assms by (simp add: commit_response_def Let_def renders_def)

lemma turn_renders:
  assumes r: "renders E render" and a: "append_only render" and i: "chat_inv render st"
    and t: "turn E n user st = Inr st'"
  shows "\<exists>resp g.
      generate E n (chat_ctx st)
        (drop (nat (prev_len st)) (render (messages st @ [(''user'', c_str user)]) True))
        = (Inr resp, g)
      \<and> messages st' = messages st @ [(''user'', c_str user), (''assistant'', c_str resp)]
      \<and> prev_len st' = int (length (render (messages st') False))
      \<and> prev_len st \<le> prev_len st'"
proof -
  let ?p = "drop (nat (prev_len st)) (render (messages st @ [(''user'', c_str user)]) True)"
  from format_prompt_renders [OF r a i, of user]
  obtain F where fp: "format_prompt E user st
     = Inr (?p, st\<lparr>messages := messages st @ [(''user'', c_str user)], formatted := F\<rparr>)"
    by blast
  obtain res g where gen: "generate E n (chat_ctx st) ?p = (res, g)"
    by (cases "generate E n (chat_ctx st) ?p")
  from t gen obtain resp where res: "res = Inr resp"
    by (cases res) (simp_all add: turn_def Let_def fp)
  from t gen res
  have st': "messages st' = messages st @ [(''user'', c_str user), (''assistant'', c_str resp)]"
    "prev_len st' = int (length (render
        (messages st @ [(''user'', c_str user), (''assistant'', c_str resp)]) False))"
    by (auto simp: turn_def Let_def fp commit_response_renders [OF r])
  from a have "prefix (render (messages st @ [(''user'', c_str user)]) False)
      (render ((messages st @ [(''user'', c_str user)]) @ [(''assistant'', c_str resp)]) False)"
    unfolding append_only_def by blast
  then have "length (render (messages st @ [(''user'', c_str user)]) False)
      \<le> length (render (messages st @ [(''user'', c_str user), (''assistant'', c_str resp)]) False)"
    by (simp add: prefix_length_le)
  with chat_inv_bounds(3) [OF a i, of "(''user'', c_str user)" False]
  have "prev_len st \<le> prev_len st'" by (simp add: st')
  with gen res st' show ?thesis by simp
qed

lemma chat_inv_show_prompt [simp]: "chat_inv render (show_prompt st) = chat_inv render st"
  by (simp add: chat_inv_def show_prompt_def)

lemma chat_inv_init: "chat_inv render (chat_init E c)"
  by (simp add: chat_inv_def chat_init_def)

lemma turn_chat_inv:
  assumes "renders E render" "append_only render" "chat_inv render st"
    "turn E n user st = Inr st'"
  shows "chat_inv render st' \<and> prev_len st \<le> prev_len st'"
  using turn_renders [OF assms] by (auto simp: chat_inv_def)

lemma chat_states_inv:
  assumes r: "renders E render" and a: "append_only render"
  shows "chat_inv render st \<Longrightarrow>
     (\<forall>s \<in> set (chat_states E n inputs st). chat_inv render s \<and> prev_len st \<le> prev_len s)
     \<and> sorted (map prev_len (chat_states E n inputs st))"
proof (induction inputs arbitrary: st)
  case Nil
  then show ?case by simp
next
  case (Cons user rest)
  show ?case
  proof (cases "user = [] \<or> (\<exists>x. turn E n user (show_prompt st) = Inl x)")
    case True
    with Cons.prems show ?thesis by auto
  next
    case False
    then obtain st' where t: "turn E n user (show_prompt st) = Inr st'" and u: "user \<noteq> []"
      by (cases "turn E n user (show_prompt st)") auto
    from Cons.prems have "chat_inv render (show_prompt st)" by simp
    from turn_chat_inv [OF r a this t]
    have i': "chat_inv render st'" and le: "prev_len st \<le> prev_len st'"
      by (simp_all add: show_prompt_def)
    from Cons.IH [OF i'] le Cons.prems t u show ?thesis
      by (auto simp: order_trans [OF le])
  qed
qed

lemma toy_renders: "renders (toy_engine capacity) toy_render"
  by (simp add: renders_def toy_engine_def)

lemma toy_append_only: "append_only toy_render"
  by (simp add: append_only_def toy_render_def)

subsection \<open>Beyond the range of \<^verbatim>\<open>int\<close>\<close>

text \<open>
  With a capacity of \<open>2^31\<close> positions \<^verbatim>\<open>n_ctx\<close> is negative: a batch of one token in an
  empty context is within the capacity and does not pass the check of line 132.
\<close>

lemma capacity_beyond_int:
  "within_capacity (toy_engine 2147483648) (0, [7]) [1]
   \<and> \<not> fits (toy_engine 2147483648) (0, [7]) [1]
   \<and> gen_loop (toy_engine 2147483648) 5 (gen_init (0, [7]) [] [1])
     = (Inl (Exit 0),
        gen_init (0, [7])
          [Stdout (esc # ''[0m\<newline>''), Stderr ''context size exceeded\<newline>''] [1])"
proof -
  let ?E = "toy_engine 2147483648"
  have w: "within_capacity ?E (0, [7]) [1]"
    by (simp add: within_capacity_def toy_engine_def)
  have f: "\<not> fits ?E (0, [7]) [1]"
    by (simp add: fits_def int32_def toy_engine_def)
  then have "\<not> fits ?E (ctx (gen_init (0, [7]) [] [1])) (batch (gen_init (0, [7]) [] [1]))"
    by (simp add: gen_init_def)
  from gen_step_overflow [OF this, of 5]
  have "gen_loop ?E 5 (gen_init (0, [7]) [] [1])
     = (Inl (Exit 0),
        (gen_init (0, [7]) [] [1])\<lparr>events := events (gen_init (0, [7]) [] [1]) @
           [Stdout (esc # ''[0m\<newline>''), Stderr ''context size exceeded\<newline>'']\<rparr>)"
    by (simp add: gen_loop.simps [of ?E 5 "gen_init (0, [7]) [] [1]"])
  then have l: "gen_loop ?E 5 (gen_init (0, [7]) [] [1])
     = (Inl (Exit 0),
        gen_init (0, [7])
          [Stdout (esc # ''[0m\<newline>''), Stderr ''context size exceeded\<newline>''] [1])"
    by (simp add: gen_init_def)
  from w f l show ?thesis by (intro conjI)
qed

text \<open>
  With a buffer of \<open>2^31\<close> bytes the cast of line 225 is negative: a reply of \<open>-1\<close> exceeds
  it, \<^verbatim>\<open>resize\<close> throws, and the message of line 230 is not printed.
\<close>

lemma buffer_beyond_int:
  "fst (llama_chat_apply_template (broken_engine 2147483648) [(''user'', c_str ''x'')] True
          2147483648) = - 1
   \<and> fst (chat_loop (broken_engine 2147483648) 5 [''x'']
            (chat_init (broken_engine 2147483648) (0, [7]))) = Uncaught_Exception"
proof -
  let ?E = "broken_engine 2147483648"
  let ?st = "show_prompt (chat_init ?E (0, [7]))"
  have r: "fst (llama_chat_apply_template ?E [(''user'', c_str ''x'')] True 2147483648) = - 1"
    by (simp add: broken_engine_def c_str_def)
  have m: "messages ?st = []" "length (formatted ?st) = 2147483648"
    by (simp_all add: show_prompt_def chat_init_def broken_engine_def toy_engine_def)
  have "render_resizing ?E (messages ?st @ [(''user'', c_str ''x'')]) (formatted ?st)
          = Inl Uncaught_Exception"
    by (rule render_resizing_throws) (simp_all add: m r int32_def)
  then have "fst (chat_loop ?E 5 [''x''] (chat_init ?E (0, [7]))) = Uncaught_Exception"
    by (simp add: turn_def format_prompt_def Let_def)
  with r show ?thesis by (intro conjI)
qed

section \<open>The claims\<close>

subsection \<open>Context overflow\<close>

text \<open>
  Claim C1. In every iteration the check of lines 130 to 136 comes before the decode call
  of line 138. The program computes the check in \<^verbatim>\<open>int\<close>; let the capacity \<open>C\<close> and the sum
  \<open>used + b\<close> of the occupied positions and the size of the pending batch be values of
  \<^verbatim>\<open>int\<close>, so that the check compares them as integers. When the batch is not within the
  capacity (\<open>used + b > C\<close>, in particular for \<open>used = C - b + 1\<close>), the loop ends the process
  with status 0 after the notice \<^verbatim>\<open>context size exceeded\<close> on the error stream, and no decode
  call is made. When it is (\<open>used + b \<le> C\<close>, in particular for \<open>used = C - b\<close>), the next
  event is the decode call on that batch. Hence every decode call of a call of \<^verbatim>\<open>generate\<close>
  with such a capacity and sum is on a batch within the capacity.
\<close>

theorem overflow_checked_before_decode:
  "(in_int_range E (ctx g) (batch g) \<and> \<not> within_capacity E (ctx g) (batch g) \<longrightarrow>
      gen_loop E n g =
        (Inl (Exit 0),
         g\<lparr>events := events g @
              [Stdout (esc # ''[0m\<newline>''), Stderr ''context size exceeded\<newline>'']\<rparr>))
   \<and> (in_int_range E (ctx g) (batch g) \<and> within_capacity E (ctx g) (batch g) \<longrightarrow>
        (\<exists>es. events (snd (gen_loop E n g)) = events g @ Decode (ctx g) (batch g) # es))
   \<and> (\<forall>c b. Decode c b \<in> set (events (snd (generate E n c0 prompt))) \<and> in_int_range E c b
          \<longrightarrow> within_capacity E c b)"
proof (intro conjI impI allI)
  assume "in_int_range E (ctx g) (batch g) \<and> \<not> within_capacity E (ctx g) (batch g)"
  then have "\<not> fits E (ctx g) (batch g)"
    by (simp add: fits_in_int_range)
  then show "gen_loop E n g =
        (Inl (Exit 0),
         g\<lparr>events := events g @
              [Stdout (esc # ''[0m\<newline>''), Stderr ''context size exceeded\<newline>'']\<rparr>)"
    by (simp add: gen_loop.simps [of E n g] gen_step_overflow)
next
  assume "in_int_range E (ctx g) (batch g) \<and> within_capacity E (ctx g) (batch g)"
  then have "fits E (ctx g) (batch g)"
    by (simp add: fits_in_int_range)
  then show "\<exists>es. events (snd (gen_loop E n g)) = events g @ Decode (ctx g) (batch g) # es"
    by (rule gen_loop_first_decode)
next
  fix c b
  assume h: "Decode c b \<in> set (events (snd (generate E n c0 prompt))) \<and> in_int_range E c b"
  with generate_decodes_fit [of E n c0 prompt] have "fits E c b"
    by (simp add: decodes_fit_def)
  with h show "within_capacity E c b"
    by (simp add: fits_in_int_range)
qed

theorem overflow_checked_before_decode_witness:
  "in_int_range (toy_engine 8) (5, [7]) [1, 2, 3, 4]
   \<and> \<not> within_capacity (toy_engine 8) (5, [7]) [1, 2, 3, 4]
   \<and> fst (gen_loop (toy_engine 8) 5 (gen_init (5, [7]) [] [1, 2, 3, 4])) = Inl (Exit 0)
   \<and> events (snd (gen_loop (toy_engine 8) 5 (gen_init (5, [7]) [] [1, 2, 3, 4])))
       = [Stdout (esc # ''[0m\<newline>''), Stderr ''context size exceeded\<newline>'']
   \<and> in_int_range (toy_engine 8) (4, [7]) [1, 2, 3, 4]
   \<and> within_capacity (toy_engine 8) (4, [7]) [1, 2, 3, 4]
   \<and> hd (events (snd (gen_loop (toy_engine 8) 5 (gen_init (4, [7]) [] [1, 2, 3, 4]))))
       = Decode (4, [7]) [1, 2, 3, 4]
   \<and> Decode (4, [7]) [97, 98, 99, 100]
       \<in> set (events (snd (generate (toy_engine 8) 5 (4, [7]) ''abcd'')))
   \<and> in_int_range (toy_engine 8) (4, [7]) [97, 98, 99, 100]
   \<and> within_capacity (toy_engine 8) (4, [7]) [97, 98, 99, 100]"
proof -
  let ?E = "toy_engine 8"
  let ?g5 = "gen_init (5, [7]) [] [1, 2, 3, 4] :: (int \<times> int list) gen_state"
  let ?g4 = "gen_init (4, [7]) [] [1, 2, 3, 4] :: (int \<times> int list) gen_state"
  note T = overflow_checked_before_decode
  have r5: "in_int_range ?E (5, [7]) [1, 2, 3, 4]"
    and r4: "in_int_range ?E (4, [7]) [1, 2, 3, 4]"
    and r4': "in_int_range ?E (4, [7]) [97, 98, 99, 100]"
    by (simp_all add: in_int_range_def toy_engine_def)
  have n5: "\<not> within_capacity ?E (5, [7]) [1, 2, 3, 4]"
    by (simp add: within_capacity_def toy_engine_def)
  have f4: "within_capacity ?E (4, [7]) [1, 2, 3, 4]"
    by (simp add: within_capacity_def toy_engine_def)
  from T [of ?E ?g5 5] r5 n5
  have a: "gen_loop ?E 5 ?g5 =
        (Inl (Exit 0),
         ?g5\<lparr>events := events ?g5 @
              [Stdout (esc # ''[0m\<newline>''), Stderr ''context size exceeded\<newline>'']\<rparr>)"
    by (simp add: gen_init_def)
  from T [of ?E ?g4 5] r4 f4
  have b: "\<exists>es. events (snd (gen_loop ?E 5 ?g4)) = events ?g4 @ Decode (ctx ?g4) (batch ?g4) # es"
    by (simp add: gen_init_def)
  have d: "Decode (4, [7]) [97, 98, 99, 100]
       \<in> set (events (snd (generate ?E 5 (4, [7]) ''abcd'')))"
    by code_simp
  from T [where E = ?E and n = 5 and ?c0.0 = "(4, [7])" and prompt = "''abcd''"] d r4'
  have c: "within_capacity ?E (4, [7]) [97, 98, 99, 100]"
    by blast
  from a b c d r5 n5 r4 f4 r4' show ?thesis
    by (auto simp: gen_init_def)
qed

subsection \<open>The stall guard\<close>

text \<open>
  Claim C2. Let \<open>ts\<close> be the tokens sampled in a call of \<^verbatim>\<open>generate\<close>, in order. No proper
  prefix of \<open>ts\<close> ends in 32 identical tokens, so the run at the end of \<open>ts\<close> has at most 32
  tokens: the loop does not go on once a run has reached 32. When the call returns,
  \<^verbatim>\<open>same_token_count\<close> is the length of the run at the end of \<open>ts\<close>. When that run has 32
  tokens, the call returns, and the response and the output consist of the pieces of all
  tokens but the last: the 32nd token of the run is neither printed nor appended. A shorter
  run (31 tokens, say) does not stop the loop: when the call has returned although the run
  is shorter than 32, the last token does not end the generation and fewer than
  \<^verbatim>\<open>n_predict\<close> tokens were emitted before it, then it was the anomaly counter that stopped
  it.
\<close>

theorem stall_guard_at_32:
  assumes gen: "generate E n c prompt = (r, g)" and ts: "ts = sampled (events g)"
  shows "(\<forall>us. strict_prefix us ts \<longrightarrow> run_len us < 32)
     \<and> run_len ts \<le> 32
     \<and> (\<forall>resp. r = Inr resp \<longrightarrow> same_token_count g = int (run_len ts))
     \<and> (run_len ts = 32 \<longrightarrow>
          r = Inr (concat (pieces E (butlast ts)))
          \<and> response g = concat (pieces E (butlast ts))
          \<and> printed (events g) = map c_str (pieces E (butlast ts)))
     \<and> (\<forall>resp. r = Inr resp \<and> run_len ts < 32 \<and> \<not> llama_vocab_is_eog E (last ts)
                \<and> int (length ts) \<le> n \<longrightarrow>
          anomaly_count g = 10
          \<and> printed (events g) = map c_str (pieces E (butlast ts)) @ anomaly_warning)"
proof -
  from generate_post [of E n c prompt] gen have post: "gen_post E n r g" by simp
  then have hist: "keeps_going E n us" if "strict_prefix us ts" "us \<noteq> []" for us
    using that by (simp add: gen_post_def Let_def ts)
  have a: "run_len us < 32" if "strict_prefix us ts" for us
    using hist [OF that] by (cases "us = []") (auto dest: keeps_going_run)
  have b: "run_len ts \<le> 32"
  proof (cases "ts = []")
    case False
    from False have "strict_prefix (butlast ts) ts" by (rule strict_prefix_butlast)
    from a [OF this] run_len_butlast [OF False]
    show ?thesis by simp
  qed simp
  have s: "same_token_count g = int (run_len ts)" if "r = Inr resp" for resp
    using post that by (simp add: gen_post_def Let_def ts [symmetric])
  have c: "r = Inr (concat (pieces E (butlast ts)))
          \<and> response g = concat (pieces E (butlast ts))
          \<and> printed (events g) = map c_str (pieces E (butlast ts))" if "run_len ts = 32"
  proof -
    from that have ne: "ts \<noteq> []" by auto
    from that have sc: "stop_condition E n ts" by (simp add: stop_condition_def)
    from post ne sc show ?thesis
      by (cases r) (auto simp: gen_post_def Let_def ts [symmetric])
  qed
  have d: "anomaly_count g = 10
          \<and> printed (events g) = map c_str (pieces E (butlast ts)) @ anomaly_warning"
    if "r = Inr resp" "run_len ts < 32" "\<not> llama_vocab_is_eog E (last ts)" "int (length ts) \<le> n"
    for resp
  proof -
    from that have "\<not> stop_condition E n ts" by (simp add: stop_condition_def)
    with post that(1) show ?thesis
      by (simp add: gen_post_def Let_def ts [symmetric])
  qed
  from a b s c d show ?thesis by blast
qed

theorem stall_guard_at_32_witness:
  "sampled (events (snd (generate (toy_engine 100) 256 (0, replicate 40 7) ''hi''))) = replicate 32 7
   \<and> strict_prefix (replicate 31 7) (replicate 32 (7::int))
   \<and> run_len (replicate 31 7) < 32
   \<and> run_len (replicate 32 7) = 32
   \<and> fst (generate (toy_engine 100) 256 (0, replicate 40 7) ''hi'') = Inr (replicate 31 (CHR ''x''))
   \<and> same_token_count (snd (generate (toy_engine 100) 256 (0, replicate 40 7) ''hi'')) = 32
   \<and> printed (events (snd (generate (toy_engine 100) 256 (0, replicate 40 7) ''hi'')))
       = replicate 31 ''x''
   \<and> sampled (events (snd (generate (toy_engine 100) 256 (0, replicate 12 40) ''hi''))) = replicate 10 40
   \<and> anomaly_count (snd (generate (toy_engine 100) 256 (0, replicate 12 40) ''hi'')) = 10"
proof -
  let ?E = "toy_engine 100"
  let ?G = "generate ?E 256 (0, replicate 40 7) ''hi''"
  let ?H = "generate ?E 256 (0, replicate 12 40) ''hi''"
  have ts: "sampled (events (snd ?G)) = replicate 32 7"
    by code_simp
  have sp: "strict_prefix (replicate 31 7) (replicate 32 (7::int))"
    by code_simp
  have r32: "run_len (replicate 32 (7::int)) = 32"
    by (simp add: run_len_replicate)
  have pc: "concat (pieces ?E (butlast (replicate 32 7))) = replicate 31 (CHR ''x'')"
    "map c_str (pieces ?E (butlast (replicate 32 7))) = replicate 31 ''x''"
    by code_simp+
  note T = stall_guard_at_32 [OF prod.collapse [symmetric] refl, of ?E 256 "(0, replicate 40 7)" "''hi''",
      unfolded ts]
  from T sp have r31: "run_len (replicate 31 (7::int)) < 32"
    by blast
  from T r32 pc have res: "fst ?G = Inr (replicate 31 (CHR ''x''))"
    and pr: "printed (events (snd ?G)) = replicate 31 ''x''"
    by simp_all
  from T res r32 have stc: "same_token_count (snd ?G) = 32"
    by simp
  have us: "sampled (events (snd ?H)) = replicate 10 40"
    by code_simp
  have h: "fst ?H = Inr (replicate 9 (CHR ''(''))"
    by code_simp
  have side: "run_len (replicate 10 (40::int)) < 32" "\<not> llama_vocab_is_eog ?E (last (replicate 10 40))"
     "int (length (replicate 10 (40::int))) \<le> 256"
    by (simp_all add: run_len_replicate toy_engine_def)
  note U = stall_guard_at_32 [OF prod.collapse [symmetric] refl, of ?E 256 "(0, replicate 12 40)" "''hi''",
      unfolded us]
  from U h side have an: "anomaly_count (snd ?H) = 10"
    by blast
  from ts sp r31 r32 res stc pr us an show ?thesis by (intro conjI)
qed

subsection \<open>The anomaly counter\<close>

text \<open>
  Claim C3. A piece increments the anomaly counter when it is suspicious (one of the
  single characters \<open>(\<close>, \<open>)\<close> and \<open>@\<close>, or one of the two multi-byte glyphs) and resets it
  to 0 otherwise, whatever its length. Let \<open>ts\<close> be the tokens sampled in a call of
  \<^verbatim>\<open>generate\<close>, and \<open>us\<close> a prefix of \<open>ts\<close> whose last token meets no stop condition of line
  153. The call returns right after \<open>us\<close>, sampling no further token, exactly when \<open>us\<close> ends
  in at least 10 suspicious pieces. A call that returns after a token that meets no stop
  condition has counted exactly 10 suspicious pieces in a row, returns the pieces of all
  tokens but the last, and has printed them and then the five parts of the warning, none
  of which is empty. A call that returns by a stop condition of line 153 has the counter
  below 10, at the length of the run of suspicious pieces that were emitted, and has
  printed the pieces only. The counter never exceeds 10. In particular, when the pieces of
  \<open>us\<close> are \<open>k\<close> opening parentheses, the call returns right after \<open>us\<close> exactly when \<open>k\<close> is
  at least 10 (not for 9, for 10 it does); and after a piece that is not suspicious, up to
  9 parentheses do not make it return.
\<close>

theorem anomaly_counter_stops_at_10:
  assumes gen: "generate E n c prompt = (r, g)" and ts: "ts = sampled (events g)"
  shows "(\<forall>p k. anomaly_next p k = (if suspicious p then k + 1 else 0))
     \<and> (\<forall>us. prefix us ts \<and> us \<noteq> [] \<and> \<not> stop_condition E n us \<longrightarrow>
            ((us = ts \<and> (\<exists>resp. r = Inr resp)) \<longleftrightarrow> 10 \<le> suspicious_run (pieces E us)))
     \<and> (\<forall>resp. r = Inr resp \<and> \<not> stop_condition E n ts \<longrightarrow>
            suspicious_run (pieces E ts) = 10 \<and> anomaly_count g = 10
            \<and> resp = concat (pieces E (butlast ts))
            \<and> printed (events g) = map c_str (pieces E (butlast ts)) @ anomaly_warning)
     \<and> (\<forall>resp. r = Inr resp \<and> stop_condition E n ts \<longrightarrow>
            anomaly_count g = int (suspicious_run (pieces E (butlast ts)))
            \<and> anomaly_count g < 10
            \<and> printed (events g) = map c_str (pieces E (butlast ts)))
     \<and> map length anomaly_warning = [33, 53, 44, 39, 48]
     \<and> anomaly_count g \<le> 10
     \<and> (\<forall>us k. prefix us ts \<and> \<not> stop_condition E n us
              \<and> pieces E us = replicate k ''('' \<and> 0 < k \<longrightarrow>
            ((us = ts \<and> (\<exists>resp. r = Inr resp)) \<longleftrightarrow> 10 \<le> k))
     \<and> (\<forall>us ps q k. prefix us ts \<and> \<not> stop_condition E n us
              \<and> pieces E us = ps @ q # replicate k ''('' \<and> \<not> suspicious q \<and> 0 < k \<and> k \<le> 9 \<longrightarrow>
            \<not> (us = ts \<and> (\<exists>resp. r = Inr resp)))"
proof -
  note A = generate_anomaly_stop [OF gen ts]
  have two: "(us = ts \<and> (\<exists>resp. r = Inr resp)) \<longleftrightarrow> 10 \<le> suspicious_run (pieces E us)"
    if "prefix us ts" "us \<noteq> []" "\<not> stop_condition E n us" for us
  proof (cases "us = ts")
    case True
    with generate_classified_return [OF gen ts] that show ?thesis by simp
  next
    case False
    with that have "strict_prefix us ts" by (simp add: strict_prefix_def)
    from A(4) [OF this] False show ?thesis by simp
  qed
  have c1: "\<forall>p k. anomaly_next p k = (if suspicious p then k + 1 else 0)"
    by (simp add: anomaly_next_suspicious)
  have c2: "\<forall>us. prefix us ts \<and> us \<noteq> [] \<and> \<not> stop_condition E n us \<longrightarrow>
            ((us = ts \<and> (\<exists>resp. r = Inr resp)) \<longleftrightarrow> 10 \<le> suspicious_run (pieces E us))"
    using two by blast
  have c3: "\<forall>resp. r = Inr resp \<and> \<not> stop_condition E n ts \<longrightarrow>
            suspicious_run (pieces E ts) = 10 \<and> anomaly_count g = 10
            \<and> resp = concat (pieces E (butlast ts))
            \<and> printed (events g) = map c_str (pieces E (butlast ts)) @ anomaly_warning"
    using generate_returns(1) [OF _ ts] gen by blast
  have c4: "\<forall>resp. r = Inr resp \<and> stop_condition E n ts \<longrightarrow>
            anomaly_count g = int (suspicious_run (pieces E (butlast ts)))
            \<and> anomaly_count g < 10
            \<and> printed (events g) = map c_str (pieces E (butlast ts))"
    using generate_returns(2) [OF _ ts] gen by blast
  have c6: "\<forall>us k. prefix us ts \<and> \<not> stop_condition E n us
              \<and> pieces E us = replicate k ''('' \<and> 0 < k \<longrightarrow>
            ((us = ts \<and> (\<exists>resp. r = Inr resp)) \<longleftrightarrow> 10 \<le> k)"
  proof (intro allI impI, elim conjE)
    fix us k
    assume h: "prefix us ts" "\<not> stop_condition E n us" "pieces E us = replicate k ''(''" "0 < k"
    have "suspicious_run (pieces E us) = k"
      using h(3) suspicious_run_append_replicate [of "''(''" "[]" k] by simp
    moreover have "us \<noteq> []" using h(3,4) by (auto simp: pieces_def)
    ultimately show "(us = ts \<and> (\<exists>resp. r = Inr resp)) \<longleftrightarrow> 10 \<le> k"
      using two [OF h(1) _ h(2)] by simp
  qed
  have c7: "\<forall>us ps q k. prefix us ts \<and> \<not> stop_condition E n us
              \<and> pieces E us = ps @ q # replicate k ''('' \<and> \<not> suspicious q \<and> 0 < k \<and> k \<le> 9 \<longrightarrow>
            \<not> (us = ts \<and> (\<exists>resp. r = Inr resp))"
  proof (intro allI impI, elim conjE)
    fix us ps q k
    assume h: "prefix us ts" "\<not> stop_condition E n us"
      "pieces E us = ps @ q # replicate k ''(''" "\<not> suspicious q" "0 < k" "k \<le> 9"
    have "suspicious_run (pieces E us) = k"
      using h(3,4) suspicious_run_reset [of q ps "replicate k ''(''"]
        suspicious_run_append_replicate [of "''(''" "[]" k]
      by simp
    moreover have "us \<noteq> []" using h(3) by (auto simp: pieces_def)
    ultimately show "\<not> (us = ts \<and> (\<exists>resp. r = Inr resp))"
      using two [OF h(1) _ h(2)] h(6) by simp
  qed
  from c1 c2 c3 c4 anomaly_warning_lengths A(1) c6 c7 show ?thesis
    by (intro conjI)
qed

theorem anomaly_counter_stops_at_10_witness:
  "prefix (replicate 9 40) (sampled (events (snd (generate (toy_engine 100) 256 (0, replicate 9 40) ''hi''))))
   \<and> pieces (toy_engine 100) (replicate 9 40) = replicate 9 ''(''
   \<and> \<not> stop_condition (toy_engine 100) 256 (replicate 9 40)
   \<and> \<not> (replicate 9 40 = sampled (events (snd (generate (toy_engine 100) 256 (0, replicate 9 40) ''hi'')))
          \<and> (\<exists>resp. fst (generate (toy_engine 100) 256 (0, replicate 9 40) ''hi'') = Inr resp))
   \<and> sampled (events (snd (generate (toy_engine 100) 256 (0, replicate 9 40) ''hi'')))
     = replicate 9 40 @ [2]
   \<and> stop_condition (toy_engine 100) 256 (replicate 9 40 @ [2])
   \<and> fst (generate (toy_engine 100) 256 (0, replicate 9 40) ''hi'') = Inr (replicate 9 (CHR ''(''))
   \<and> anomaly_count (snd (generate (toy_engine 100) 256 (0, replicate 9 40) ''hi'')) = 9
   \<and> printed (events (snd (generate (toy_engine 100) 256 (0, replicate 9 40) ''hi'')))
     = replicate 9 ''(''
   \<and> sampled (events (snd (generate (toy_engine 100) 256 (0, replicate 12 40) ''hi'')))
     = replicate 10 40
   \<and> pieces (toy_engine 100) (replicate 10 40) = replicate 10 ''(''
   \<and> \<not> stop_condition (toy_engine 100) 256 (replicate 10 40)
   \<and> 10 \<le> suspicious_run (pieces (toy_engine 100) (replicate 10 40))
   \<and> fst (generate (toy_engine 100) 256 (0, replicate 12 40) ''hi'') = Inr (replicate 9 (CHR ''(''))
   \<and> anomaly_count (snd (generate (toy_engine 100) 256 (0, replicate 12 40) ''hi'')) = 10
   \<and> printed (events (snd (generate (toy_engine 100) 256 (0, replicate 12 40) ''hi'')))
     = replicate 9 ''('' @ anomaly_warning
   \<and> prefix (replicate 4 40 @ 7 # replicate 9 40)
        (sampled (events (snd (generate (toy_engine 100) 256
                                 (0, replicate 4 40 @ 7 # replicate 9 40) ''hi''))))
   \<and> pieces (toy_engine 100) (replicate 4 40 @ 7 # replicate 9 40)
     = replicate 4 ''('' @ ''x'' # replicate 9 ''(''
   \<and> \<not> stop_condition (toy_engine 100) 256 (replicate 4 40 @ 7 # replicate 9 40)
   \<and> \<not> suspicious ''x''
   \<and> \<not> (replicate 4 40 @ 7 # replicate 9 40
            = sampled (events (snd (generate (toy_engine 100) 256
                                      (0, replicate 4 40 @ 7 # replicate 9 40) ''hi'')))
          \<and> (\<exists>resp. fst (generate (toy_engine 100) 256
                                  (0, replicate 4 40 @ 7 # replicate 9 40) ''hi'') = Inr resp))
   \<and> fst (generate (toy_engine 100) 256 (0, replicate 4 40 @ 7 # replicate 9 40) ''hi'')
     = Inr (replicate 4 (CHR ''('') @ CHR ''x'' # replicate 9 (CHR ''(''))"
proof -
  let ?E = "toy_engine 100"
  let ?A = "generate ?E 256 (0, replicate 9 40) ''hi''"
  let ?B = "generate ?E 256 (0, replicate 12 40) ''hi''"
  let ?C = "generate ?E 256 (0, replicate 4 40 @ 7 # replicate 9 40) ''hi''"
  note T = anomaly_counter_stops_at_10 [OF prod.collapse [symmetric] refl]
  have a: "prefix (replicate 9 40) (sampled (events (snd ?A)))"
    and a': "sampled (events (snd ?A)) = replicate 9 40 @ [2]"
    and ar: "fst ?A = Inr (replicate 9 (CHR ''(''))"
    and b: "sampled (events (snd ?B)) = replicate 10 40"
    and c: "prefix (replicate 4 40 @ 7 # replicate 9 40) (sampled (events (snd ?C)))"
    and cr: "fst ?C = Inr (replicate 4 (CHR ''('') @ CHR ''x'' # replicate 9 (CHR ''(''))"
    by code_simp+
  have pa: "pieces ?E (replicate 9 40) = replicate 9 ''(''"
    and pb: "pieces ?E (replicate 10 40) = replicate 10 ''(''"
    and pc: "pieces ?E (replicate 4 40 @ 7 # replicate 9 40)
               = replicate 4 ''('' @ ''x'' # replicate 9 ''(''"
    by (simp_all add: pieces_def piece_of_def toy_engine_def toy_piece_def)
  have sa: "\<not> stop_condition ?E 256 (replicate 9 40)"
    and sa': "stop_condition ?E 256 (replicate 9 40 @ [2])"
    and sb: "\<not> stop_condition ?E 256 (replicate 10 40)"
    and sc: "\<not> stop_condition ?E 256 (replicate 4 40 @ 7 # replicate 9 40)"
    by code_simp+
  have nx: "\<not> suspicious ''x''"
    by (simp add: suspicious_def glyph_o_acute_def glyph_g_o_acute_def)
  have rs: "10 \<le> suspicious_run (pieces ?E (replicate 10 40))"
    and ra9: "int (suspicious_run (pieces ?E (butlast (replicate 9 40 @ [2])))) = 9"
    and pa9: "map c_str (pieces ?E (butlast (replicate 9 40 @ [2]))) = replicate 9 ''(''"
    and pb9: "map c_str (pieces ?E (butlast (replicate 10 40))) = replicate 9 ''(''"
    by code_simp+
  from T [of ?E 256 "(0, replicate 9 40)" "''hi''", THEN conjunct2, THEN conjunct2,
      THEN conjunct2, THEN conjunct2, THEN conjunct2, THEN conjunct2, THEN conjunct1, rule_format,
      of "replicate 9 40" 9] a sa pa
  have ra: "\<not> (replicate 9 40 = sampled (events (snd ?A)) \<and> (\<exists>resp. fst ?A = Inr resp))"
    by simp
  from T [of ?E 256 "(0, replicate 9 40)" "''hi''", THEN conjunct2, THEN conjunct2,
      THEN conjunct2, THEN conjunct1, rule_format, of "replicate 9 (CHR ''('')"] ar a' sa' ra9 pa9
  have ra': "anomaly_count (snd ?A) = 9" "printed (events (snd ?A)) = replicate 9 ''(''"
    by simp_all
  from T [of ?E 256 "(0, replicate 12 40)" "''hi''", THEN conjunct2, THEN conjunct1, rule_format,
      of "replicate 10 40"] b sb rs
  obtain resp where rb: "fst ?B = Inr resp"
    by auto
  from T [of ?E 256 "(0, replicate 12 40)" "''hi''", THEN conjunct2, THEN conjunct2,
      THEN conjunct1, rule_format, of resp] rb b sb pb9
  have rb': "fst ?B = Inr (replicate 9 (CHR ''(''))"
    "anomaly_count (snd ?B) = 10"
    "printed (events (snd ?B)) = replicate 9 ''('' @ anomaly_warning"
    by (simp_all add: pieces_def piece_of_def toy_engine_def toy_piece_def numeral_eq_Suc)
  from T [of ?E 256 "(0, replicate 4 40 @ 7 # replicate 9 40)" "''hi''",
      THEN conjunct2, THEN conjunct2, THEN conjunct2, THEN conjunct2, THEN conjunct2,
      THEN conjunct2, THEN conjunct2, rule_format,
      of "replicate 4 40 @ 7 # replicate 9 40" "replicate 4 ''(''" "''x''" 9] c sc pc nx
  have rc: "\<not> (replicate 4 40 @ 7 # replicate 9 40 = sampled (events (snd ?C))
          \<and> (\<exists>resp. fst ?C = Inr resp))"
    by simp
  from a pa sa ra a' sa' ar ra' b pb sb rs rb' c pc sc nx rc cr show ?thesis
    by (intro conjI)
qed

subsection \<open>The maximal length\<close>

text \<open>
  Claim C4. Take a call of \<^verbatim>\<open>generate\<close> with \<^verbatim>\<open>n_predict\<close> \<open>= n > 0\<close> that returns, and let \<open>ts\<close>
  be the tokens that it sampled. When the last of them does not end the generation, the run
  of identical tokens at the end of \<open>ts\<close> is shorter than 32 and \<open>ts\<close> does not end in 10
  suspicious pieces (the tokens before the last were emitted, so none of the three holds
  for them either), then \<open>n + 1\<close> tokens were sampled, the response and the output are the
  pieces of the first \<open>n\<close> of them, and \<^verbatim>\<open>n_decoded\<close> is \<open>n\<close>: the loop has stopped by
  \<^verbatim>\<open>n_decoded >= n_predict\<close> without emitting the token \<open>n + 1\<close>.
\<close>

theorem max_predict_emits_exactly_n:
  assumes gen: "generate E n c prompt = (Inr resp, g)" and ts: "ts = sampled (events g)"
    and pos: "0 < n"
    and no_eog: "\<not> llama_vocab_is_eog E (last ts)"
    and no_stall: "run_len ts < 32"
    and no_anomaly: "suspicious_run (pieces E ts) < 10"
  shows "length ts = nat n + 1
     \<and> resp = concat (pieces E (take (nat n) ts))
     \<and> response g = resp
     \<and> printed (events g) = map c_str (pieces E (take (nat n) ts))
     \<and> n_decoded g = n"
proof -
  from generate_post [of E n c prompt] gen have post: "gen_post E n (Inr resp) g" by simp
  then have ne: "ts \<noteq> []" by (simp add: gen_post_def Let_def ts)
  from post no_anomaly have sc: "stop_condition E n ts"
    by (auto simp: gen_post_def Let_def ts [symmetric] split: if_splits)
  with no_eog no_stall have ge: "n \<le> int (length ts) - 1"
    by (simp add: stop_condition_def)
  with pos have "butlast ts \<noteq> []"
    by (cases ts rule: rev_cases) auto
  with post strict_prefix_butlast [OF ne] have "keeps_going E n (butlast ts)"
    by (simp add: gen_post_def Let_def ts [symmetric])
  then have "\<not> n \<le> int (length (butlast ts)) - 1"
    by (simp add: keeps_going_def stop_condition_def)
  with ge ne have len: "int (length ts) = n + 1" by simp
  with pos have len': "length ts = nat n + 1" by linarith
  then have bl: "butlast ts = take (nat n) ts"
    by (simp add: butlast_conv_take)
  from post sc len len' show ?thesis
    by (simp add: gen_post_def Let_def ts [symmetric] bl)
qed

theorem max_predict_emits_exactly_n_witness:
  "fst (generate (toy_engine 100) 3 (0, [7, 8, 40, 10, 11]) ''hi'') = Inr ''xx(''
   \<and> sampled (events (snd (generate (toy_engine 100) 3 (0, [7, 8, 40, 10, 11]) ''hi'')))
       = [7, 8, 40, 10]
   \<and> printed (events (snd (generate (toy_engine 100) 3 (0, [7, 8, 40, 10, 11]) ''hi'')))
       = [''x'', ''x'', ''('']
   \<and> n_decoded (snd (generate (toy_engine 100) 3 (0, [7, 8, 40, 10, 11]) ''hi'')) = 3"
proof -
  let ?E = "toy_engine 100"
  let ?G = "generate ?E 3 (0, [7, 8, 40, 10, 11]) ''hi''"
  have r: "fst ?G = Inr ''xx(''" and ts: "sampled (events (snd ?G)) = [7, 8, 40, 10]"
    by code_simp+
  from r have gen: "?G = (Inr ''xx('', snd ?G)"
    by (metis prod.collapse)
  have side: "\<not> llama_vocab_is_eog ?E (last [7, 8, 40, 10])" "run_len [7, 8, 40, 10] < 32"
    "suspicious_run (pieces ?E [7, 8, 40, 10]) < 10"
    by code_simp+
  have pc: "map c_str (pieces ?E (take (nat 3) [7, 8, 40, 10])) = [''x'', ''x'', ''('']"
    by code_simp
  from max_predict_emits_exactly_n [OF gen ts [symmetric] _ side] r ts pc
  show ?thesis by simp
qed

subsection \<open>The offset into the rendered conversation\<close>

text \<open>
  Claim C5. Let the template renderer keep its contract (it reports the length of the
  rendered text and fills the buffer with it as far as the buffer goes) and be append-only,
  as the specification assumes. Then in every state in which the loop of \<^verbatim>\<open>main\<close> starts an
  iteration, for every sequence of input lines: \<^verbatim>\<open>prev_len\<close> is not negative; after the first
  turn it is the length of the conversation rendered without the generation suffix, the
  committed assistant turn included; for every next line of the user it is at most the
  length \<^verbatim>\<open>new_len\<close> of the conversation rendered with that line and the suffix, and the
  prompt of the turn is the range from \<^verbatim>\<open>prev_len\<close> to \<^verbatim>\<open>new_len\<close> of that text; and a turn that
  ends normally has called \<^verbatim>\<open>generate\<close> on that prompt, has appended the user's and the
  assistant's message, has set \<^verbatim>\<open>prev_len\<close> to the length of the conversation rendered
  without the suffix, and has not decreased it. So \<^verbatim>\<open>prev_len\<close> never decreases from one
  turn to the next.
\<close>

theorem prev_len_tracks_render:
  assumes r: "renders E render" and a: "append_only render"
  shows "(\<forall>st \<in> set (chat_states E n inputs (chat_init E c)).
            0 \<le> prev_len st
          \<and> (messages st \<noteq> [] \<longrightarrow> prev_len st = int (length (render (messages st) False)))
          \<and> (\<forall>user.
               prev_len st \<le> int (length (render (messages st @ [(''user'', c_str user)]) True))
             \<and> (\<exists>st1. format_prompt E user (show_prompt st)
                   = Inr (drop (nat (prev_len st))
                            (take (length (render (messages st @ [(''user'', c_str user)]) True))
                               (render (messages st @ [(''user'', c_str user)]) True)), st1))
             \<and> (\<forall>st'. turn E n user (show_prompt st) = Inr st' \<longrightarrow>
                  (\<exists>resp g.
                     generate E n (chat_ctx st)
                       (drop (nat (prev_len st))
                          (render (messages st @ [(''user'', c_str user)]) True))
                       = (Inr resp, g)
                     \<and> messages st'
                         = messages st @ [(''user'', c_str user), (''assistant'', c_str resp)]
                     \<and> prev_len st' = int (length (render (messages st') False))
                     \<and> prev_len st \<le> prev_len st'))))
     \<and> sorted (map prev_len (chat_states E n inputs (chat_init E c)))"
proof (intro conjI ballI allI impI)
  have init: "chat_inv render (chat_init E c)" by (rule chat_inv_init)
  note S = chat_states_inv [OF r a init, where n = n and inputs = inputs]
  show "sorted (map prev_len (chat_states E n inputs (chat_init E c)))"
    using S by simp
  fix st assume "st \<in> set (chat_states E n inputs (chat_init E c))"
  with S have i: "chat_inv render st" by simp
  then have i': "chat_inv render (show_prompt st)" by simp
  show "0 \<le> prev_len st" by (rule chat_inv_bounds(1) [OF a i])
  {
    assume "messages st \<noteq> []"
    with i show "prev_len st = int (length (render (messages st) False))"
      by (simp add: chat_inv_def)
  }
  fix user
  show "prev_len st \<le> int (length (render (messages st @ [(''user'', c_str user)]) True))"
    by (rule chat_inv_bounds(3) [OF a i])
  show "\<exists>st1. format_prompt E user (show_prompt st)
                   = Inr (drop (nat (prev_len st))
                            (take (length (render (messages st @ [(''user'', c_str user)]) True))
                               (render (messages st @ [(''user'', c_str user)]) True)), st1)"
    using format_prompt_renders [OF r a i', of user] by (auto simp: show_prompt_def)
  fix st' assume "turn E n user (show_prompt st) = Inr st'"
  from turn_renders [OF r a i' this]
  show "\<exists>resp g.
                     generate E n (chat_ctx st)
                       (drop (nat (prev_len st))
                          (render (messages st @ [(''user'', c_str user)]) True))
                       = (Inr resp, g)
                     \<and> messages st'
                         = messages st @ [(''user'', c_str user), (''assistant'', c_str resp)]
                     \<and> prev_len st' = int (length (render (messages st') False))
                     \<and> prev_len st \<le> prev_len st'"
    by (simp add: show_prompt_def)
qed

theorem prev_len_tracks_render_witness:
  "renders (toy_engine 100) toy_render \<and> append_only toy_render
   \<and> map prev_len (chat_states (toy_engine 100) 3 [''hi'', ''yo'']
                       (chat_init (toy_engine 100) (0, [7, 8, 2, 9]))) = [0, 23, 45]
   \<and> sorted (map prev_len (chat_states (toy_engine 100) 3 [''hi'', ''yo'']
                               (chat_init (toy_engine 100) (0, [7, 8, 2, 9]))))
   \<and> messages (chat_states (toy_engine 100) 3 [''hi'', ''yo'']
                  (chat_init (toy_engine 100) (0, [7, 8, 2, 9])) ! 1)
       = [(''user'', ''hi''), (''assistant'', ''xx'')]
   \<and> toy_render [(''user'', ''hi''), (''assistant'', ''xx'')] False = ''<user>hi|<assistant>xx|''
   \<and> prev_len (chat_states (toy_engine 100) 3 [''hi'', ''yo'']
                  (chat_init (toy_engine 100) (0, [7, 8, 2, 9])) ! 1)
       = int (length ''<user>hi|<assistant>xx|'')
   \<and> (\<exists>st1. format_prompt (toy_engine 100) ''yo''
               (show_prompt (chat_states (toy_engine 100) 3 [''hi'', ''yo'']
                               (chat_init (toy_engine 100) (0, [7, 8, 2, 9])) ! 1))
             = Inr (''<user>yo|<assistant>'', st1))
   \<and> turn (toy_engine 100) 3 ''yo''
        (show_prompt (chat_states (toy_engine 100) 3 [''hi'', ''yo'']
                        (chat_init (toy_engine 100) (0, [7, 8, 2, 9])) ! 1))
       = Inr (chat_states (toy_engine 100) 3 [''hi'', ''yo'']
                (chat_init (toy_engine 100) (0, [7, 8, 2, 9])) ! 2)
   \<and> messages (chat_states (toy_engine 100) 3 [''hi'', ''yo'']
                  (chat_init (toy_engine 100) (0, [7, 8, 2, 9])) ! 2)
       = [(''user'', ''hi''), (''assistant'', ''xx''), (''user'', ''yo''), (''assistant'', ''x'')]"
proof -
  let ?E = "toy_engine 100"
  let ?S = "chat_states ?E 3 [''hi'', ''yo''] (chat_init ?E (0, [7, 8, 2, 9]))"
  note T = prev_len_tracks_render [OF toy_renders toy_append_only, of 100 3 "[''hi'', ''yo'']"
      "(0, [7, 8, 2, 9])"]
  define s1 where "s1 = ?S ! 1"
  define s2 where "s2 = ?S ! 2"
  have pl: "map prev_len ?S = [0, 23, 45]"
    and ms: "messages s1 = [(''user'', ''hi''), (''assistant'', ''xx'')]"
    and tn: "turn ?E 3 ''yo'' (show_prompt s1) = Inr s2"
    unfolding s1_def s2_def by code_simp+
  have mem: "s1 \<in> set ?S"
    unfolding s1_def
  proof (rule nth_mem)
    have "length (map prev_len ?S) = 3" by (simp only: pl) simp
    then show "1 < length ?S" by simp
  qed
  have rd: "toy_render [(''user'', ''hi''), (''assistant'', ''xx'')] False
              = ''<user>hi|<assistant>xx|''"
    by (simp add: toy_render_def)
  from T have srt: "sorted (map prev_len ?S)" by blast
  from T mem ms have "prev_len s1 = int (length (toy_render (messages s1) False))"
    by fastforce
  then have p1: "prev_len s1 = int (length ''<user>hi|<assistant>xx|'')"
    by (simp only: ms rd)
  from T mem have "\<exists>st1. format_prompt ?E ''yo'' (show_prompt s1)
      = Inr (drop (nat (prev_len s1))
               (take (length (toy_render (messages s1 @ [(''user'', c_str ''yo'')]) True))
                  (toy_render (messages s1 @ [(''user'', c_str ''yo'')]) True)), st1)"
    by blast
  then have fp: "\<exists>st1. format_prompt ?E ''yo'' (show_prompt s1)
      = Inr (''<user>yo|<assistant>'', st1)"
    unfolding ms p1 by (simp add: toy_render_def c_str_def)
  from T mem tn have "\<exists>resp g. generate ?E 3 (chat_ctx s1)
        (drop (nat (prev_len s1)) (toy_render (messages s1 @ [(''user'', c_str ''yo'')]) True))
        = (Inr resp, g)
      \<and> messages s2 = messages s1 @ [(''user'', c_str ''yo''), (''assistant'', c_str resp)]
      \<and> prev_len s2 = int (length (toy_render (messages s2) False))
      \<and> prev_len s1 \<le> prev_len s2"
    by blast
  then obtain resp g where gen: "generate ?E 3 (chat_ctx s1) ''<user>yo|<assistant>'' = (Inr resp, g)"
    and m2: "messages s2 = messages s1 @ [(''user'', c_str ''yo''), (''assistant'', c_str resp)]"
    unfolding ms p1 by (auto simp: toy_render_def c_str_def)
  have "fst (generate ?E 3 (chat_ctx s1) ''<user>yo|<assistant>'') = Inr ''x''"
    unfolding s1_def by code_simp
  with gen have "resp = ''x''" by simp
  with m2 have ms2: "messages s2
      = [(''user'', ''hi''), (''assistant'', ''xx''), (''user'', ''yo''), (''assistant'', ''x'')]"
    by (simp add: ms c_str_def)
  from toy_renders [of 100] toy_append_only pl srt ms rd p1 fp tn ms2 show ?thesis
    unfolding s1_def s2_def by (intro conjI)
qed

subsection \<open>The flags of the tokenizer\<close>

text \<open>
  Claim C6. The tokenizer calls of a call of \<^verbatim>\<open>generate\<close> are the one that measures the
  prompt and, unless the vector of that size cannot be built, the one that fills it. The
  size is the reply of the first call with the opposite sign, as a value of \<^verbatim>\<open>int\<close>: for
  the reply \<open>-2^31\<close> it is \<open>-2^31\<close> again, and the first call is the only one. Both calls
  are on the prompt, both ask for the leading special token exactly when the context holds
  no token of the sequence (\<open>used = 0\<close>, that is \<^verbatim>\<open>llama_memory_seq_pos_max\<close> is \<open>-1\<close>), and
  both ask for special tokens to be parsed. The loop calls the tokenizer no more.
\<close>

theorem tokenize_flags:
  "filter is_Tokenize (events (snd (generate E n c prompt)))
     = (if n_prompt_tokens E c prompt < 0
        then [Tokenize prompt 0 (llama_memory_seq_pos_max E c + 1 = 0) True]
        else [Tokenize prompt 0 (llama_memory_seq_pos_max E c + 1 = 0) True,
              Tokenize prompt (n_prompt_tokens E c prompt)
                (llama_memory_seq_pos_max E c + 1 = 0) True])"
  by (simp add: generate_unfold gen_loop_tokenize gen_init_def tokenize_events_def is_first_def)

theorem tokenize_flags_witness:
  "filter is_Tokenize (events (snd (generate (toy_engine 100) 3 (0, [7]) ''hi'')))
     = [Tokenize ''hi'' 0 True True, Tokenize ''hi'' 3 True True]
   \<and> filter is_Tokenize (events (snd (generate (toy_engine 100) 3 (5, [7]) ''hi'')))
     = [Tokenize ''hi'' 0 False True, Tokenize ''hi'' 2 False True]
   \<and> n_prompt_tokens (refusing_engine 100) (0, [7]) ''hi'' = - 2147483648
   \<and> filter is_Tokenize (events (snd (generate (refusing_engine 100) 3 (0, [7]) ''hi'')))
     = [Tokenize ''hi'' 0 True True]
   \<and> fst (generate (refusing_engine 100) 3 (0, [7]) ''hi'') = Inl Uncaught_Exception"
proof -
  have n: "n_prompt_tokens (toy_engine 100) (0, [7]) ''hi'' = 3"
    "n_prompt_tokens (toy_engine 100) (5, [7]) ''hi'' = 2"
    by (simp_all add: n_prompt_tokens_def is_first_def toy_engine_def toy_tokens_def int32_def)
  have m: "n_prompt_tokens (refusing_engine 100) (0, [7]) ''hi'' = - 2147483648"
    by (simp add: n_prompt_tokens_def refusing_engine_def int32_def)
  have p: "llama_memory_seq_pos_max (refusing_engine 100) (0, [7]) + 1 = 0"
    by (simp add: refusing_engine_def toy_engine_def)
  have e: "fst (generate (refusing_engine 100) 3 (0, [7]) ''hi'') = Inl Uncaught_Exception"
    using m by (simp add: generate_unfold)
  from n tokenize_flags [of "toy_engine 100" 3 "(0, [7])" "''hi''"]
    tokenize_flags [of "toy_engine 100" 3 "(5, [7])" "''hi''"]
  have a: "filter is_Tokenize (events (snd (generate (toy_engine 100) 3 (0, [7]) ''hi'')))
     = [Tokenize ''hi'' 0 True True, Tokenize ''hi'' 3 True True]"
    "filter is_Tokenize (events (snd (generate (toy_engine 100) 3 (5, [7]) ''hi'')))
     = [Tokenize ''hi'' 0 False True, Tokenize ''hi'' 2 False True]"
    by (simp_all add: toy_engine_def)
  from m p tokenize_flags [of "refusing_engine 100" 3 "(0, [7])" "''hi''"]
  have b: "filter is_Tokenize (events (snd (generate (refusing_engine 100) 3 (0, [7]) ''hi'')))
     = [Tokenize ''hi'' 0 True True]"
    by simp
  from a m b e show ?thesis by (intro conjI)
qed

subsection \<open>Errors of the template\<close>

text \<open>
  Claim C7. Let the user's line not be empty, and let \<open>msgs\<close> be the conversation with the
  user's message. When the first rendering of \<open>msgs\<close>, into a buffer of less than \<open>2^31\<close>
  bytes, reports a negative length, \<^verbatim>\<open>main\<close> returns 1 after the message
  \<^verbatim>\<open>failed to apply the chat template\<close> on the error stream, without generating anything.
  So it does when the first rendering reports a length that exceeds the size of the
  buffer and the second rendering, into the resized buffer, reports a negative length.
  When the prompt was formatted and the response generated, and the rendering of the
  conversation with the assistant's message reports a negative length, \<^verbatim>\<open>main\<close> returns 1
  after the same message. In all three cases the lines of input that follow are not read:
  the session ends, not the turn alone.
\<close>

theorem template_error_is_fatal:
  assumes user: "user \<noteq> []"
  shows "(length (formatted st) < 2147483648
          \<and> fst (llama_chat_apply_template E (messages st @ [(''user'', c_str user)]) True
                  (length (formatted st))) < 0 \<longrightarrow>
            (\<exists>st'. chat_loop E n (user # rest) st = (Exit 1, st')
               \<and> chat_log st' = chat_log (show_prompt st)
                                  @ [Stderr ''failed to apply the chat template\<newline>'']))
     \<and> (\<forall>len1. len1 = fst (llama_chat_apply_template E (messages st @ [(''user'', c_str user)])
                            True (length (formatted st)))
          \<and> int32 (int (length (formatted st))) < len1 \<and> 0 \<le> len1
          \<and> fst (llama_chat_apply_template E (messages st @ [(''user'', c_str user)]) True
                  (nat len1)) < 0 \<longrightarrow>
            (\<exists>st'. chat_loop E n (user # rest) st = (Exit 1, st')
               \<and> chat_log st' = chat_log (show_prompt st)
                                  @ [Stderr ''failed to apply the chat template\<newline>'']))
     \<and> (\<forall>prompt st1 resp g.
          format_prompt E user (show_prompt st) = Inr (prompt, st1)
          \<and> generate E n (chat_ctx st1) prompt = (Inr resp, g)
          \<and> fst (llama_chat_apply_template E
                   (messages st @ [(''user'', c_str user), (''assistant'', c_str resp)]) False 0) < 0
          \<longrightarrow>
          (\<exists>st'. chat_loop E n (user # rest) st = (Exit 1, st')
             \<and> last (chat_log st') = Stderr ''failed to apply the chat template\<newline>''))"
proof (intro conjI impI allI)
  let ?msgs = "messages st @ [(''user'', c_str user)]"
  assume h: "length (formatted st) < 2147483648
          \<and> fst (llama_chat_apply_template E ?msgs True (length (formatted st))) < 0"
  with render_resizing_first_negative [of "formatted st" E ?msgs]
  obtain b where "render_resizing E ?msgs (formatted st)
      = Inr (fst (llama_chat_apply_template E ?msgs True (length (formatted st))), b)"
    by blast
  from turn_template_error [OF this _ user] h
  show "\<exists>st'. chat_loop E n (user # rest) st = (Exit 1, st')
             \<and> chat_log st' = chat_log (show_prompt st)
                                @ [Stderr ''failed to apply the chat template\<newline>'']"
    by blast
next
  let ?msgs = "messages st @ [(''user'', c_str user)]"
  fix len1
  assume h: "len1 = fst (llama_chat_apply_template E ?msgs True (length (formatted st)))
          \<and> int32 (int (length (formatted st))) < len1 \<and> 0 \<le> len1
          \<and> fst (llama_chat_apply_template E ?msgs True (nat len1)) < 0"
  with render_resizing_second [of "formatted st" E ?msgs]
  obtain b where "render_resizing E ?msgs (formatted st)
      = Inr (fst (llama_chat_apply_template E ?msgs True (nat len1)), b)"
    by blast
  from turn_template_error [OF this _ user] h
  show "\<exists>st'. chat_loop E n (user # rest) st = (Exit 1, st')
             \<and> chat_log st' = chat_log (show_prompt st)
                                @ [Stderr ''failed to apply the chat template\<newline>'']"
    by blast
next
  fix prompt st1 resp g
  assume h: "format_prompt E user (show_prompt st) = Inr (prompt, st1)
          \<and> generate E n (chat_ctx st1) prompt = (Inr resp, g)
          \<and> fst (llama_chat_apply_template E
                   (messages st @ [(''user'', c_str user), (''assistant'', c_str resp)]) False 0) < 0"
  let ?st3 = "st1\<lparr>chat_log := chat_log st1 @ [Stdout (esc # ''[33m'')],
                  chat_ctx := ctx g,
                  chat_log := chat_log st1 @ [Stdout (esc # ''[33m'')] @ events g\<rparr>"
  from h format_prompt_messages [of E user "show_prompt st" prompt st1]
  have "messages ?st3 @ [(''assistant'', c_str resp)]
          = messages st @ [(''user'', c_str user), (''assistant'', c_str resp)]"
    by (simp add: show_prompt_def)
  with h commit_response_negative [of E ?st3 resp]
  obtain st' where "commit_response E resp ?st3 = Inl (Exit 1, st')"
    "last (chat_log st') = Stderr ''failed to apply the chat template\<newline>''"
    by auto
  with h user
  show "\<exists>st'. chat_loop E n (user # rest) st = (Exit 1, st')
             \<and> last (chat_log st') = Stderr ''failed to apply the chat template\<newline>''"
    by (simp add: turn_def Let_def)
qed

theorem template_error_is_fatal_witness:
  "length (formatted (chat_init (broken_engine 100) (0, [7]))) < 2147483648
   \<and> fst (llama_chat_apply_template (broken_engine 100) [(''user'', c_str ''x'')] True 100) < 0
   \<and> fst (chat_loop (broken_engine 100) 5 [''x'', ''hi''] (chat_init (broken_engine 100) (0, [7])))
       = Exit 1
   \<and> length (formatted (chat_init fickle_engine (0, [7]))) = 8
   \<and> fst (llama_chat_apply_template fickle_engine [(''user'', c_str ''hi'')] True 8) = 20
   \<and> fst (llama_chat_apply_template fickle_engine [(''user'', c_str ''hi'')] True 20) < 0
   \<and> fst (chat_loop fickle_engine 5 [''hi'', ''ho''] (chat_init fickle_engine (0, [7]))) = Exit 1
   \<and> (\<exists>prompt st1 g.
         format_prompt (broken_engine 100) ''hi'' (show_prompt (chat_init (broken_engine 100) (0, [7])))
           = Inr (prompt, st1)
         \<and> generate (broken_engine 100) 5 (chat_ctx st1) prompt = (Inr ''x'', g))
   \<and> fst (llama_chat_apply_template (broken_engine 100)
            [(''user'', c_str ''hi''), (''assistant'', c_str ''x'')] False 0) < 0
   \<and> fst (chat_loop (broken_engine 100) 5 [''hi'', ''ho''] (chat_init (broken_engine 100) (0, [7])))
       = Exit 1"
proof -
  let ?E = "broken_engine 100"
  let ?st = "chat_init ?E (0, [7])"
  let ?F = "fickle_engine"
  let ?ft = "chat_init ?F (0, [7])"
  note T = template_error_is_fatal [where E = ?E and n = 5 and st = ?st]
  note U = template_error_is_fatal [where E = ?F and n = 5 and st = ?ft]
  have m: "messages ?st = []" "length (formatted ?st) = 100"
    by (simp_all add: chat_init_def broken_engine_def toy_engine_def)
  have mf: "messages ?ft = []" "length (formatted ?ft) = 8"
    by (simp_all add: chat_init_def fickle_engine_def toy_engine_def)
  have neg: "fst (llama_chat_apply_template ?E [(''user'', c_str ''x'')] True 100) < 0"
    by code_simp
  have f1: "fst (llama_chat_apply_template ?F [(''user'', c_str ''hi'')] True 8) = 20"
    and f2: "fst (llama_chat_apply_template ?F [(''user'', c_str ''hi'')] True 20) < 0"
    by code_simp+
  from T [of "''x''" "[''hi'']", THEN conjunct1] neg m
  have a: "fst (chat_loop ?E 5 [''x'', ''hi''] ?st) = Exit 1"
    by auto
  from U [of "''hi''" "[''ho'']", THEN conjunct2, THEN conjunct1, rule_format, of 20] f1 f2 mf
  have a2: "fst (chat_loop ?F 5 [''hi'', ''ho''] ?ft) = Exit 1"
    by (auto simp: int32_def)
  obtain prompt st1 where fp: "format_prompt ?E ''hi'' (show_prompt ?st) = Inr (prompt, st1)"
    and p: "prompt = ''<user>hi|<assistant>''" and cs: "chat_ctx st1 = (0, [7])"
    by (simp add: format_prompt_def Let_def show_prompt_def chat_init_def render_resizing_def
        render_into_def overlay_def broken_engine_def toy_engine_def toy_render_def c_str_def
        int32_def)
  have gen: "generate ?E 5 (0, [7]) ''<user>hi|<assistant>''
              = (Inr ''x'', snd (generate ?E 5 (0, [7]) ''<user>hi|<assistant>''))"
    by (rule prod_eqI) (code_simp, simp)
  have neg2: "fst (llama_chat_apply_template ?E
                   (messages ?st @ [(''user'', c_str ''hi''), (''assistant'', c_str ''x'')]) False 0) < 0"
    by code_simp
  from T [of "''hi''" "[''ho'']", THEN conjunct2, THEN conjunct2, rule_format,
      of prompt st1 "''x''" "snd (generate ?E 5 (0, [7]) ''<user>hi|<assistant>'')"]
    fp gen neg2 p cs
  have b: "fst (chat_loop ?E 5 [''hi'', ''ho''] ?st) = Exit 1"
    by auto
  from fp gen p cs have ex: "\<exists>prompt st1 g.
         format_prompt ?E ''hi'' (show_prompt ?st) = Inr (prompt, st1)
         \<and> generate ?E 5 (chat_ctx st1) prompt = (Inr ''x'', g)"
    by metis
  have l: "length (formatted ?st) < 2147483648" using m by simp
  from neg2 m have neg2': "fst (llama_chat_apply_template ?E
            [(''user'', c_str ''hi''), (''assistant'', c_str ''x'')] False 0) < 0"
    by simp
  from l neg a mf(2) f1 f2 a2 ex neg2' b show ?thesis by (intro conjI)
qed

subsection \<open>The piece that triggers the anomaly stop\<close>

text \<open>
  Claim C8. When a call of \<^verbatim>\<open>generate\<close> ends with the anomaly counter at 10 (or more), the
  sampled tokens end in exactly 10 suspicious pieces, the last of which belongs to the
  last token. The call returns, and the response and the pieces printed before the warning
  are those of all tokens but the last: the tenth suspicious piece is neither printed nor
  part of the response, which ends in the first 9 pieces of the run.
\<close>

theorem anomaly_stop_drops_tenth_piece:
  assumes gen: "generate E n c prompt = (r, g)" and ts: "ts = sampled (events g)"
    and ten: "10 \<le> anomaly_count g"
  shows "ts \<noteq> []
     \<and> suspicious_run (pieces E ts) = 10
     \<and> suspicious (piece_of E (last ts))
     \<and> suspicious_run (pieces E (butlast ts)) = 9
     \<and> r = Inr (concat (pieces E (butlast ts)))
     \<and> response g = concat (pieces E (butlast ts))
     \<and> printed (events g) = map c_str (pieces E (butlast ts)) @ anomaly_warning"
proof -
  note A = generate_anomaly_stop [OF gen ts]
  from A(1) ten have eq: "anomaly_count g = 10" by simp
  with A(2) have ne: "ts \<noteq> []" by simp
  note B = A(3) [OF eq]
  from B have "suspicious_run (pieces E (butlast ts) @ [piece_of E (last ts)]) = 10"
    by (simp add: pieces_butlast_last [OF ne, symmetric])
  then have "suspicious (piece_of E (last ts)) \<and> suspicious_run (pieces E (butlast ts)) = 9"
    by (simp add: suspicious_run_snoc split: if_splits)
  with ne B show ?thesis by simp
qed

theorem anomaly_stop_drops_tenth_piece_witness:
  "10 \<le> anomaly_count (snd (generate (toy_engine 100) 256 (0, 7 # replicate 12 40) ''hi''))
   \<and> sampled (events (snd (generate (toy_engine 100) 256 (0, 7 # replicate 12 40) ''hi'')))
       = 7 # replicate 10 40
   \<and> fst (generate (toy_engine 100) 256 (0, 7 # replicate 12 40) ''hi'')
       = Inr (CHR ''x'' # replicate 9 (CHR ''(''))
   \<and> printed (events (snd (generate (toy_engine 100) 256 (0, 7 # replicate 12 40) ''hi'')))
       = ''x'' # replicate 9 ''('' @ anomaly_warning"
proof -
  let ?G = "generate (toy_engine 100) 256 (0, 7 # replicate 12 40) ''hi''"
  have ten: "10 \<le> anomaly_count (snd ?G)"
    and ts: "sampled (events (snd ?G)) = 7 # replicate 10 40"
    by code_simp+
  have pc: "pieces (toy_engine 100) (butlast (7 # replicate 10 40)) = ''x'' # replicate 9 ''(''"
    by code_simp
  have cc: "concat (''x'' # replicate 9 ''('') = CHR ''x'' # replicate 9 (CHR ''('')"
    "map c_str (''x'' # replicate 9 ''('') = ''x'' # replicate 9 ''(''"
    by code_simp+
  from anomaly_stop_drops_tenth_piece [OF prod.collapse [symmetric] refl ten, unfolded ts pc cc]
    ten ts
  show ?thesis by simp
qed

subsection \<open>Nothing to predict\<close>

text \<open>
  Claim C9. A call of \<^verbatim>\<open>generate\<close> with \<^verbatim>\<open>n_predict\<close> \<open>\<le> 0\<close> returns exactly when the
  tokenisation succeeds, the prompt batch passes the check of lines 130 to 132 and its
  decode call succeeds. Whenever it returns, the response is empty and nothing was printed, and still
  the prompt batch was decoded once and one token was sampled: after the two tokenizer
  calls the events are that decode call and that sample, and no other.
\<close>

theorem nonpositive_max_predict:
  assumes n: "n \<le> 0"
  shows "((\<exists>resp g. generate E n c prompt = (Inr resp, g)) \<longleftrightarrow>
            tokenize_ok E c prompt \<and> fits E c (prompt_batch E c prompt)
            \<and> fst (llama_decode E c (prompt_batch E c prompt)) = 0)
     \<and> (\<forall>resp g. generate E n c prompt = (Inr resp, g) \<longrightarrow>
            resp = [] \<and> response g = [] \<and> n_decoded g = 0
            \<and> events g =
                [Tokenize prompt 0 (is_first E c) True,
                 Tokenize prompt (n_prompt_tokens E c prompt) (is_first E c) True,
                 Decode c (prompt_batch E c prompt),
                 Sample (fst (llama_sampler_sample E
                                (snd (llama_decode E c (prompt_batch E c prompt)))))])"
proof -
  let ?g0 = "gen_init c (tokenize_events E c prompt) (prompt_batch E c prompt)"
  let ?ok = "tokenize_ok E c prompt \<and> fits E c (prompt_batch E c prompt)
            \<and> fst (llama_decode E c (prompt_batch E c prompt)) = 0"
  have g0: "ctx ?g0 = c" "batch ?g0 = prompt_batch E c prompt" "n_decoded ?g0 = 0"
    "response ?g0 = []" "events ?g0 = tokenize_events E c prompt"
    by (simp_all add: gen_init_def)
  have ret: "generate E n c prompt =
      (Inr [], ?g0\<lparr>ctx := next_ctx E ?g0,
          events := events ?g0 @ [Decode (ctx ?g0) (batch ?g0), Sample (next_token E ?g0)],
          same_token_count := next_run E ?g0,
          last_token_id := next_token E ?g0\<rparr>)" if ok: ?ok
  proof -
    from ok n have "gen_step E n ?g0 = Stop (Inr (response ?g0))
       (?g0\<lparr>ctx := next_ctx E ?g0,
          events := events ?g0 @ [Decode (ctx ?g0) (batch ?g0), Sample (next_token E ?g0)],
          same_token_count := next_run E ?g0,
          last_token_id := next_token E ?g0\<rparr>)"
      by (intro gen_step_stop_now) (simp_all add: g0)
    with ok show ?thesis
      by (simp add: generate_unfold tokenize_ok_def gen_loop.simps [of E n ?g0] g0)
  qed
  have conv: ?ok if "generate E n c prompt = (Inr resp, g)" for resp g
  proof -
    from that have tok: "tokenize_ok E c prompt"
      and loop: "gen_loop E n ?g0 = (Inr resp, g)"
      by (auto simp: generate_unfold tokenize_ok_def split: if_splits)
    have "\<exists>g'. gen_step E n ?g0 = Stop (Inr resp) g'"
    proof (cases "gen_step E n ?g0")
      case (Continue g')
      from gen_step_ContinueD [OF this] n show ?thesis by (simp add: g0)
    next
      case (Stop r g')
      with loop show ?thesis by (simp add: gen_loop.simps [of E n ?g0])
    qed
    then obtain g' where "gen_step E n ?g0 = Stop (Inr resp) g'" ..
    from gen_step_Return_fits [OF this] tok show ?thesis by (simp add: g0)
  qed
  have ev: "resp = [] \<and> response g = [] \<and> n_decoded g = 0
            \<and> events g =
                [Tokenize prompt 0 (is_first E c) True,
                 Tokenize prompt (n_prompt_tokens E c prompt) (is_first E c) True,
                 Decode c (prompt_batch E c prompt),
                 Sample (fst (llama_sampler_sample E
                                (snd (llama_decode E c (prompt_batch E c prompt)))))]"
    if gen: "generate E n c prompt = (Inr resp, g)" for resp g
  proof -
    from conv [OF gen] have ok: ?ok .
    then have "\<not> n_prompt_tokens E c prompt < 0" by (simp add: tokenize_ok_def)
    then have te: "tokenize_events E c prompt =
        [Tokenize prompt 0 (is_first E c) True,
         Tokenize prompt (n_prompt_tokens E c prompt) (is_first E c) True]"
      by (simp add: tokenize_events_def)
    have nt: "next_token E (gen_init c es b) =
        fst (llama_sampler_sample E (snd (llama_decode E c b)))" for es b
      by (simp add: next_token_def gen_init_def)
    from ret [OF ok] gen have "resp = []"
      and "g = ?g0\<lparr>ctx := next_ctx E ?g0,
          events := events ?g0 @ [Decode (ctx ?g0) (batch ?g0), Sample (next_token E ?g0)],
          same_token_count := next_run E ?g0,
          last_token_id := next_token E ?g0\<rparr>"
      by simp_all
    then have "resp = []" "response g = []" "n_decoded g = 0"
      "events g = tokenize_events E c prompt
                  @ [Decode c (prompt_batch E c prompt), Sample (next_token E ?g0)]"
      by (simp_all add: g0)
    then show ?thesis by (simp add: te nt)
  qed
  from ret conv have "(\<exists>resp g. generate E n c prompt = (Inr resp, g)) \<longleftrightarrow> ?ok"
    by blast
  with ev show ?thesis by blast
qed

theorem nonpositive_max_predict_witness:
  "tokenize_ok (toy_engine 100) (0, [7, 8]) ''hi''
   \<and> fits (toy_engine 100) (0, [7, 8]) (prompt_batch (toy_engine 100) (0, [7, 8]) ''hi'')
   \<and> fst (generate (toy_engine 100) 0 (0, [7, 8]) ''hi'') = Inr []
   \<and> events (snd (generate (toy_engine 100) 0 (0, [7, 8]) ''hi''))
      = [Tokenize ''hi'' 0 True True, Tokenize ''hi'' 3 True True,
         Decode (0, [7, 8]) [1, 104, 105], Sample 7]"
proof -
  let ?E = "toy_engine 100"
  let ?c = "(0, [7, 8]) :: int \<times> int list"
  have ok: "tokenize_ok ?E ?c ''hi''" "fits ?E ?c (prompt_batch ?E ?c ''hi'')"
    "fst (llama_decode ?E ?c (prompt_batch ?E ?c ''hi'')) = 0"
    by code_simp+
  have vals: "is_first ?E ?c" "n_prompt_tokens ?E ?c ''hi'' = 3"
    "prompt_batch ?E ?c ''hi'' = [1, 104, 105]"
    "fst (llama_sampler_sample ?E (snd (llama_decode ?E ?c [1, 104, 105]))) = 7"
    by code_simp+
  note T = nonpositive_max_predict [of 0 ?E ?c "''hi''"]
  from T ok obtain resp g where gen: "generate ?E 0 ?c ''hi'' = (Inr resp, g)"
    by auto
  with T have "resp = []" "events g =
                [Tokenize ''hi'' 0 (is_first ?E ?c) True,
                 Tokenize ''hi'' (n_prompt_tokens ?E ?c ''hi'') (is_first ?E ?c) True,
                 Decode ?c (prompt_batch ?E ?c ''hi''),
                 Sample (fst (llama_sampler_sample ?E
                                (snd (llama_decode ?E ?c (prompt_batch ?E ?c ''hi'')))))]"
    by auto
  with gen ok vals show ?thesis by simp
qed

subsection \<open>The empty piece\<close>

text \<open>
  Claim C10. The classification sends the empty piece to the last branch, which resets the
  counter: an iteration that reaches the classification with an empty piece goes on with
  the counter at 0 and the response unchanged. So suspicious pieces on the two sides of
  an empty piece do not add up: the run of suspicious pieces at the end of the sampled
  tokens is that of the tokens after the empty piece, and when a call ends with the counter
  at 10, ten suspicious pieces have come after the empty piece.
\<close>

theorem empty_piece_resets_anomaly_counter:
  assumes gen: "generate E n c prompt = (r, g)" and ts: "ts = sampled (events g)"
  shows "(\<forall>k. anomaly_next [] k = 0)
     \<and> (\<forall>g0. fits E (ctx g0) (batch g0) \<and> fst (llama_decode E (ctx g0) (batch g0)) = 0
             \<and> \<not> llama_vocab_is_eog E (next_token E g0) \<and> n_decoded g0 < n
             \<and> next_run E g0 < 32 \<and> llama_token_to_piece E (next_token E g0) = Some [] \<longrightarrow>
           (\<exists>g'. gen_step E n g0 = Continue g' \<and> anomaly_count g' = 0
                 \<and> response g' = response g0))
     \<and> (\<forall>us t vs. ts = us @ t # vs \<and> llama_token_to_piece E t = Some [] \<longrightarrow>
           suspicious_run (pieces E ts) = suspicious_run (pieces E vs)
           \<and> (anomaly_count g = 10 \<longrightarrow> suspicious_run (pieces E vs) = 10 \<and> 10 \<le> length vs))"
proof -
  have c1: "\<forall>k. anomaly_next [] k = 0"
    by (simp add: anomaly_next_suspicious)
  have c2: "\<forall>g0. fits E (ctx g0) (batch g0) \<and> fst (llama_decode E (ctx g0) (batch g0)) = 0
             \<and> \<not> llama_vocab_is_eog E (next_token E g0) \<and> n_decoded g0 < n
             \<and> next_run E g0 < 32 \<and> llama_token_to_piece E (next_token E g0) = Some [] \<longrightarrow>
           (\<exists>g'. gen_step E n g0 = Continue g' \<and> anomaly_count g' = 0
                 \<and> response g' = response g0)"
  proof (intro allI impI, elim conjE)
    fix g0
    assume "fits E (ctx g0) (batch g0)" "fst (llama_decode E (ctx g0) (batch g0)) = 0"
      "\<not> llama_vocab_is_eog E (next_token E g0)" "n_decoded g0 < n" "next_run E g0 < 32"
      "llama_token_to_piece E (next_token E g0) = Some []"
    from gen_step_emit [OF this] c1
    show "\<exists>g'. gen_step E n g0 = Continue g' \<and> anomaly_count g' = 0 \<and> response g' = response g0"
      by simp
  qed
  have c3: "\<forall>us t vs. ts = us @ t # vs \<and> llama_token_to_piece E t = Some [] \<longrightarrow>
           suspicious_run (pieces E ts) = suspicious_run (pieces E vs)
           \<and> (anomaly_count g = 10 \<longrightarrow> suspicious_run (pieces E vs) = 10 \<and> 10 \<le> length vs)"
  proof (intro allI impI, elim conjE)
    fix us t vs
    assume h: "ts = us @ t # vs" "llama_token_to_piece E t = Some []"
    then have "pieces E ts = pieces E us @ [] # pieces E vs"
      by (simp add: pieces_def piece_of_def)
    then have eq: "suspicious_run (pieces E ts) = suspicious_run (pieces E vs)"
      by (simp add: suspicious_run_reset)
    have "suspicious_run (pieces E vs) = 10 \<and> 10 \<le> length vs" if "anomaly_count g = 10"
    proof -
      from generate_anomaly_stop(3) [OF gen ts that] eq
      have "suspicious_run (pieces E vs) = 10" by simp
      with suspicious_run_le [of "pieces E vs"] show ?thesis by (simp add: pieces_def)
    qed
    with eq show "suspicious_run (pieces E ts) = suspicious_run (pieces E vs)
           \<and> (anomaly_count g = 10 \<longrightarrow> suspicious_run (pieces E vs) = 10 \<and> 10 \<le> length vs)"
      by blast
  qed
  from c1 c2 c3 show ?thesis by (intro conjI)
qed

theorem empty_piece_resets_anomaly_counter_witness:
  "(\<exists>g'. gen_step (toy_engine 100) 5 (gen_init (0, [0]) [] [104]) = Continue g'
         \<and> anomaly_count g' = 0 \<and> response g' = [])
   \<and> sampled (events (snd (generate (toy_engine 100) 256
                            (0, replicate 9 40 @ 0 # replicate 12 40) ''hi'')))
       = replicate 9 40 @ 0 # replicate 10 40
   \<and> llama_token_to_piece (toy_engine 100) 0 = Some []
   \<and> anomaly_count (snd (generate (toy_engine 100) 256
                            (0, replicate 9 40 @ 0 # replicate 12 40) ''hi'')) = 10
   \<and> suspicious_run (pieces (toy_engine 100) (replicate 10 40)) = 10
   \<and> fst (generate (toy_engine 100) 256 (0, replicate 9 40 @ 0 # replicate 9 40) ''hi'')
       = Inr (replicate 18 (CHR ''(''))"
proof -
  let ?E = "toy_engine 100"
  let ?g0 = "gen_init (0, [0]) [] [104] :: (int \<times> int list) gen_state"
  let ?G = "generate ?E 256 (0, replicate 9 40 @ 0 # replicate 12 40) ''hi''"
  note T = empty_piece_resets_anomaly_counter [OF prod.collapse [symmetric] refl]
  have pre: "fits ?E (ctx ?g0) (batch ?g0)" "fst (llama_decode ?E (ctx ?g0) (batch ?g0)) = 0"
    "\<not> llama_vocab_is_eog ?E (next_token ?E ?g0)" "n_decoded ?g0 < 5"
    "next_run ?E ?g0 < 32" "llama_token_to_piece ?E (next_token ?E ?g0) = Some []"
    by code_simp+
  from T [where E = ?E and n = 5, THEN conjunct2, THEN conjunct1, rule_format, of ?g0] pre
  have a: "\<exists>g'. gen_step ?E 5 ?g0 = Continue g' \<and> anomaly_count g' = 0 \<and> response g' = []"
    by (simp add: gen_init_def)
  have ts: "sampled (events (snd ?G)) = replicate 9 40 @ 0 # replicate 10 40"
    and ac: "anomaly_count (snd ?G) = 10"
    and pz: "llama_token_to_piece ?E 0 = Some []"
    and other: "fst (generate ?E 256 (0, replicate 9 40 @ 0 # replicate 9 40) ''hi'')
       = Inr (replicate 18 (CHR ''(''))"
    by code_simp+
  from T [where E = ?E and n = 256 and c = "(0, replicate 9 40 @ 0 # replicate 12 40)"
        and prompt = "''hi''", THEN conjunct2, THEN conjunct2, rule_format,
        of "replicate 9 40" 0 "replicate 10 40"] ts pz ac
  have b: "suspicious_run (pieces ?E (replicate 10 40)) = 10"
    by simp
  from a ts pz ac b other show ?thesis by (intro conjI)
qed

end
